theory Spec2Isabelle
  imports Main "HOL-Library.Word"
begin

section \<open>Data model\<close>

text \<open>
  The scheduler of \<^verbatim>\<open>rocketpool/node/stake-minipools.go\<close> works on values of three
  library packages (go-ethereum \<^verbatim>\<open>common\<close>, rocketpool-go \<^verbatim>\<open>types\<close> and
  \<^verbatim>\<open>minipool\<close>). Only what the scheduler reads of them is kept:
  \<^item> \<^verbatim>\<open>common.Address\<close> is a 20-byte array;
  \<^item> \<^verbatim>\<open>types.MinipoolStatus\<close> is the lifecycle enumeration, whose zero value (what
    \<^verbatim>\<open>make([]types.MinipoolStatus, n)\<close> fills a slice with) is \<open>Initialized\<close>;
  \<^item> \<^verbatim>\<open>*minipool.Minipool\<close> is a contract binding, read only through its
    \<^verbatim>\<open>Address\<close> field and its \<^verbatim>\<open>GetStatus\<close> method;
  \<^item> a Go \<^verbatim>\<open>error\<close> is \<open>error option\<close>, \<open>None\<close> being \<^verbatim>\<open>nil\<close>.
\<close>

type_synonym address = "160 word"

datatype MinipoolStatus = Initialized | Prelaunch | Staking | Withdrawable | Dissolved

record minipool =
  Address :: address

type_synonym error = string

text \<open>
  \<^verbatim>\<open>*rocketpool.RocketPool\<close>, the handle to the remote ledger. The three library calls
  the aggregator makes through it are its fields: \<^verbatim>\<open>minipool.GetNodeMinipoolAddresses\<close>,
  \<^verbatim>\<open>minipool.NewMinipool\<close> and \<^verbatim>\<open>mp.GetStatus\<close> (a call on the binding, which reaches the
  ledger through the handle the binding was created from). A value of the record is what
  the ledger answers during one aggregation: within it, the answer to a call depends on
  the arguments of the call only.
\<close>

record RocketPool =
  GetNodeMinipoolAddresses :: "address \<Rightarrow> error + address list"
  NewMinipool :: "address \<Rightarrow> error + minipool"
  GetStatus :: "minipool \<Rightarrow> error + MinipoolStatus"

section \<open>The status fan-out\<close>

text \<open>
  The shared state of the fan-out of \<^verbatim>\<open>getPrelaunchMinipools\<close>: the slice
  \<^verbatim>\<open>statuses\<close>, the error slot of the \<^verbatim>\<open>errgroup.Group\<close> (set once, by the first
  goroutine that returns an error) and the goroutines started by \<^verbatim>\<open>wg.Go\<close> that have
  not returned yet. \<open>writes\<close> is a history variable: the index of every assignment
  \<^verbatim>\<open>statuses[mi] = status\<close> performed so far, in the order performed.
\<close>

record fanout =
  statuses :: "MinipoolStatus list"
  err :: "error option"
  running :: "nat list"
  writes :: "nat list"

text \<open>The state after the loop of \<^verbatim>\<open>wg.Go\<close> calls over \<open>n\<close> minipools.\<close>

definition fanout_init :: "nat \<Rightarrow> fanout" where
  "fanout_init n =
     \<lparr>statuses = replicate n Initialized, err = None, running = [0..<n], writes = []\<rparr>"

text \<open>
  The closure given to \<^verbatim>\<open>wg.Go\<close> for index \<open>mi\<close>:
  \<^verbatim>\<open>status, err := mp.GetStatus(); if err == nil { statuses[mi] = status }; return err\<close>.
\<close>

definition status_task ::
  "RocketPool \<Rightarrow> minipool list \<Rightarrow> nat \<Rightarrow> fanout \<Rightarrow> error option \<times> fanout" where
  "status_task rp minipools mi st =
     (case GetStatus rp (minipools ! mi) of
        Inr status \<Rightarrow>
          (None, st\<lparr>statuses := (statuses st)[mi := status], writes := writes st @ [mi]\<rparr>)
      | Inl e \<Rightarrow> (Some e, st))"

text \<open>
  One goroutine of the group, run to its end: the closure, then the group's bookkeeping
  (the first error returned is kept, later ones are dropped; the goroutine is done).
\<close>

definition goroutine :: "RocketPool \<Rightarrow> minipool list \<Rightarrow> nat \<Rightarrow> fanout \<Rightarrow> fanout" where
  "goroutine rp minipools mi st =
     (case status_task rp minipools mi st of
        (r, st') \<Rightarrow>
          (let st'' = (case r of
                         None \<Rightarrow> st'
                       | Some e \<Rightarrow> (if err st' = None then st'\<lparr>err := Some e\<rparr> else st'))
           in st''\<lparr>running := removeAll mi (running st'')\<rparr>))"

text \<open>
  A schedule is the order in which the Go runtime lets the goroutines complete: a list
  of indices. An index that names no running goroutine is skipped.
\<close>

type_synonym schedule = "nat list"

definition sched_step :: "RocketPool \<Rightarrow> minipool list \<Rightarrow> nat \<Rightarrow> fanout \<Rightarrow> fanout" where
  "sched_step rp minipools i st =
     (if i \<in> set (running st) then goroutine rp minipools i st else st)"

text \<open>
  \<^verbatim>\<open>wg.Wait()\<close> returns when every goroutine of the group has returned. The goroutines
  complete in the order of the schedule; those the schedule leaves out complete after
  it, so that every order of completion is some schedule and the call always returns.
\<close>

definition wg_Wait :: "RocketPool \<Rightarrow> minipool list \<Rightarrow> schedule \<Rightarrow> fanout \<Rightarrow> fanout" where
  "wg_Wait rp minipools sched st =
     fold (sched_step rp minipools) (sched @ [0..<length minipools]) st"

text \<open>
  Lines 109-125 of \<^verbatim>\<open>getPrelaunchMinipools\<close> up to the return of \<^verbatim>\<open>wg.Wait()\<close>: one
  goroutine per minipool is started, and all of them are waited for.
\<close>

definition status_fanout :: "RocketPool \<Rightarrow> minipool list \<Rightarrow> schedule \<Rightarrow> fanout" where
  "status_fanout rp minipools sched =
     wg_Wait rp minipools sched (fanout_init (length minipools))"

section \<open>The status aggregator\<close>

text \<open>Lines 98-106: one contract binding per address; the first failure aborts.\<close>

fun create_minipools :: "RocketPool \<Rightarrow> address list \<Rightarrow> error + minipool list" where
  "create_minipools rp [] = Inr []"
| "create_minipools rp (a # addresses) =
     (case NewMinipool rp a of
        Inl e \<Rightarrow> Inl e
      | Inr mp \<Rightarrow>
          (case create_minipools rp addresses of
             Inl e \<Rightarrow> Inl e
           | Inr minipools \<Rightarrow> Inr (mp # minipools)))"

text \<open>
  Lines 127-133: the filter loop, reading \<^verbatim>\<open>statuses[mi]\<close> for every index of
  \<^verbatim>\<open>minipools\<close> in turn and appending the minipool when the status is \<open>Prelaunch\<close>.
\<close>

definition filter_prelaunch :: "minipool list \<Rightarrow> MinipoolStatus list \<Rightarrow> minipool list" where
  "filter_prelaunch minipools sts =
     fold (\<lambda>mi acc. if sts ! mi = Prelaunch then acc @ [minipools ! mi] else acc)
       [0..<length minipools] []"

text \<open>
  \<^verbatim>\<open>getPrelaunchMinipools\<close>. Go returns the pair of the slice and the error; the model
  returns the same pair.
\<close>

definition getPrelaunchMinipools ::
  "RocketPool \<Rightarrow> schedule \<Rightarrow> address \<Rightarrow> minipool list \<times> error option" where
  "getPrelaunchMinipools rp sched nodeAddress =
     (case GetNodeMinipoolAddresses rp nodeAddress of
        Inl e \<Rightarrow> ([], Some e)
      | Inr addresses \<Rightarrow>
          (case create_minipools rp addresses of
             Inl e \<Rightarrow> ([], Some e)
           | Inr minipools \<Rightarrow>
               (let st = status_fanout rp minipools sched
                in case err st of
                     Some e \<Rightarrow> ([], Some e)
                   | None \<Rightarrow> (filter_prelaunch minipools (statuses st), None))))"

section \<open>The cycle\<close>

text \<open>
  What the scheduler does to the outside is a sequence of log lines and sleeps. A log
  line is kept by the statement that printed it and the values formatted into it
  (\<^verbatim>\<open>mp.Address.Hex()\<close> as the address, a wrapped error as the error):
  \<^item> \<open>LogError e\<close>: \<^verbatim>\<open>log.Println(err)\<close> of the loop;
  \<^item> \<open>LogReady n\<close>: \<^verbatim>\<open>"%d minipools are ready for staking..."\<close>;
  \<^item> \<open>LogCouldNotStake a e\<close>: \<^verbatim>\<open>"Could not stake minipool %s: %w"\<close>;
  \<^item> \<open>LogStaking a\<close>: \<^verbatim>\<open>"Staking minipool %s..."\<close>;
  \<^item> \<open>LogNotImplemented\<close>: \<^verbatim>\<open>"Minipool staking not implemented..."\<close>;
  \<^item> \<open>LogStaked a\<close>: \<^verbatim>\<open>"Successfully staked minipool %s."\<close>.
\<close>

datatype log_line =
  LogError error
| LogReady nat
| LogCouldNotStake address error
| LogStaking address
| LogNotImplemented
| LogStaked address

datatype event = Logged log_line | Slept int

text \<open>
  The world the scheduler acts on. The record is extensible: whatever else an action
  may change (the remote ledger, a test double's notes) lives in the extension.
\<close>

record world =
  events :: "event list"

definition log_Println :: "log_line \<Rightarrow> 'a world_scheme \<Rightarrow> 'a world_scheme" where
  "log_Println l w = w\<lparr>events := events w @ [Logged l]\<rparr>"

definition time_Sleep :: "int \<Rightarrow> 'a world_scheme \<Rightarrow> 'a world_scheme" where
  "time_Sleep d w = w\<lparr>events := events w @ [Slept d]\<rparr>"

text \<open>\<^verbatim>\<open>time.ParseDuration("1m")\<close>: one minute, in nanoseconds.\<close>

definition stakePrelaunchMinipoolsInterval :: int where
  "stakePrelaunchMinipoolsInterval = 60 * 1000000000"

text \<open>
  The other collaborators, each by what it answers at one moment:
  \<^verbatim>\<open>accounts.AccountManager\<close> by its \<^verbatim>\<open>GetNodeAccount\<close>, and the \<^verbatim>\<open>services\<close> package
  by the four calls made with the cli context (the handles that
  \<^verbatim>\<open>GetAccountManager\<close> and \<^verbatim>\<open>GetRocketPool\<close> return are the records
  \<open>AccountManager\<close> and \<open>RocketPool\<close>; here only their error is kept).
\<close>

record account =
  AccountAddress :: address

record AccountManager =
  GetNodeAccount :: "error + account"

record Context =
  WaitNodeRegistered :: "error option"
  GetAccountManager :: "error option"
  GetRocketPool :: "error option"
  WaitClientSynced :: "error option"

text \<open>\<^verbatim>\<open>stakeMinipool\<close>, lines 142-156.\<close>

definition stakeMinipool ::
  "AccountManager \<Rightarrow> minipool \<Rightarrow> 'a world_scheme \<Rightarrow> error option \<times> 'a world_scheme" where
  "stakeMinipool am mp w =
     (let w1 = log_Println (LogStaking (Address mp)) w;
          w2 = log_Println LogNotImplemented w1;
          w3 = log_Println (LogStaked (Address mp)) w2
      in (None, w3))"

text \<open>
  Lines 77-81, the dispatch loop, with the action called in its body as the parameter
  \<open>act\<close>.
\<close>

fun stake_each ::
  "(minipool \<Rightarrow> 'a world_scheme \<Rightarrow> error option \<times> 'a world_scheme) \<Rightarrow>
   minipool list \<Rightarrow> 'a world_scheme \<Rightarrow> 'a world_scheme" where
  "stake_each act [] w = w"
| "stake_each act (mp # minipools) w =
     (case act mp w of
        (None, w') \<Rightarrow> stake_each act minipools w'
      | (Some e, w') \<Rightarrow>
          stake_each act minipools (log_Println (LogCouldNotStake (Address mp) e) w'))"

text \<open>
  \<^verbatim>\<open>stakePrelaunchMinipools\<close>, lines 51-86, with the same parameter; \<open>sched\<close> is the
  order in which the goroutines of this cycle's fan-out complete.
\<close>

definition stakePrelaunchMinipools_with ::
  "(minipool \<Rightarrow> 'a world_scheme \<Rightarrow> error option \<times> 'a world_scheme) \<Rightarrow>
   Context \<Rightarrow> AccountManager \<Rightarrow> RocketPool \<Rightarrow> schedule \<Rightarrow>
   'a world_scheme \<Rightarrow> error option \<times> 'a world_scheme" where
  "stakePrelaunchMinipools_with act c am rp sched w =
     (case WaitClientSynced c of
        Some e \<Rightarrow> (Some e, w)
      | None \<Rightarrow>
          (case GetNodeAccount am of
             Inl e \<Rightarrow> (Some e, w)
           | Inr nodeAccount \<Rightarrow>
               (case getPrelaunchMinipools rp sched (AccountAddress nodeAccount) of
                  (minipools, Some e) \<Rightarrow> (Some e, w)
                | (minipools, None) \<Rightarrow>
                    (if length minipools = 0 then (None, w)
                     else (None,
                       stake_each act minipools
                         (log_Println (LogReady (length minipools)) w))))))"

text \<open>The cycle of the source: the action is \<^verbatim>\<open>stakeMinipool(am, mp)\<close>.\<close>

definition stakePrelaunchMinipools ::
  "Context \<Rightarrow> AccountManager \<Rightarrow> RocketPool \<Rightarrow> schedule \<Rightarrow>
   'a world_scheme \<Rightarrow> error option \<times> 'a world_scheme" where
  "stakePrelaunchMinipools c am rp sched w =
     stakePrelaunchMinipools_with (stakeMinipool am) c am rp sched w"

section \<open>The loop and its start\<close>

text \<open>
  The collaborators change over time. A \<open>moment\<close> is what they answer during one
  cycle, together with that cycle's schedule; a timeline gives the moment of every
  cycle.
\<close>

record moment =
  ctx :: Context
  manager :: AccountManager
  ledger :: RocketPool
  completion :: schedule

text \<open>One iteration of the \<^verbatim>\<open>for\<close> loop of lines 36-41.\<close>

definition loop_iteration :: "moment \<Rightarrow> 'a world_scheme \<Rightarrow> 'a world_scheme" where
  "loop_iteration m w =
     (case stakePrelaunchMinipools (ctx m) (manager m) (ledger m) (completion m) w of
        (Some e, w') \<Rightarrow> time_Sleep stakePrelaunchMinipoolsInterval (log_Println (LogError e) w')
      | (None, w') \<Rightarrow> time_Sleep stakePrelaunchMinipoolsInterval w')"

text \<open>The world after the first \<open>n\<close> iterations of the loop.\<close>

primrec loop_run :: "(nat \<Rightarrow> moment) \<Rightarrow> nat \<Rightarrow> 'a world_scheme \<Rightarrow> 'a world_scheme" where
  "loop_run timeline 0 w = w"
| "loop_run timeline (Suc n) w = loop_iteration (timeline n) (loop_run timeline n w)"

text \<open>
  The loop itself, from its iteration number \<open>t\<close> on: the body of the goroutine. The
  \<^verbatim>\<open>for\<close> has no condition, no \<^verbatim>\<open>break\<close> and no \<^verbatim>\<open>return\<close>; the value \<open>None\<close> is
  "does not return".
\<close>

partial_function (option) stake_loop ::
  "(nat \<Rightarrow> moment) \<Rightarrow> nat \<Rightarrow> 'a world_scheme \<Rightarrow> 'a world_scheme option" where
  "stake_loop timeline t w = stake_loop timeline (Suc t) (loop_iteration (timeline t) w)"

text \<open>
  \<^verbatim>\<open>startStakePrelaunchMinipools\<close>, lines 25-47. The result is what the caller gets
  back, whether the \<^verbatim>\<open>go\<close> statement was reached (the loop runs detached from then
  on), and the world at the moment of the return.
\<close>

definition startStakePrelaunchMinipools ::
  "Context \<Rightarrow> 'a world_scheme \<Rightarrow> error option \<times> bool \<times> 'a world_scheme" where
  "startStakePrelaunchMinipools c w =
     (case WaitNodeRegistered c of
        Some e \<Rightarrow> (Some e, False, w)
      | None \<Rightarrow>
          (case GetAccountManager c of
             Some e \<Rightarrow> (Some e, False, w)
           | None \<Rightarrow>
               (case GetRocketPool c of
                  Some e \<Rightarrow> (Some e, False, w)
                | None \<Rightarrow> (None, True, w))))"

section \<open>A probe for the dispatch loop\<close>

text \<open>
  \<^verbatim>\<open>stakeMinipool\<close> is a stub that cannot fail. To observe what the dispatch loop does
  when an action fails, the loop is run with a probe in its place: an action that notes
  the address it is called with and fails as \<open>outcome\<close> says.
\<close>

record probe = world +
  attempts :: "address list"

definition probe_action ::
  "(minipool \<Rightarrow> error option) \<Rightarrow> minipool \<Rightarrow> 'a probe_scheme \<Rightarrow> error option \<times> 'a probe_scheme" where
  "probe_action outcome mp w = (outcome mp, w\<lparr>attempts := attempts w @ [Address mp]\<rparr>)"

text \<open>The lines the dispatch loop adds for one minipool under the probe.\<close>

definition failure_lines :: "(minipool \<Rightarrow> error option) \<Rightarrow> minipool \<Rightarrow> event list" where
  "failure_lines outcome mp =
     (case outcome mp of
        None \<Rightarrow> []
      | Some e \<Rightarrow> [Logged (LogCouldNotStake (Address mp) e)])"

text \<open>The three lines \<^verbatim>\<open>stakeMinipool\<close> prints for one minipool.\<close>

definition stub_lines :: "minipool \<Rightarrow> event list" where
  "stub_lines mp =
     [Logged (LogStaking (Address mp)), Logged LogNotImplemented, Logged (LogStaked (Address mp))]"

section \<open>The invariant of the fan-out\<close>

text \<open>
  What holds of the shared state whatever goroutines have completed so far: a goroutine
  still running has left its slot at the zero value; one that has returned has written
  its slot, once, if its query succeeded, and otherwise has left the slot alone and an
  error is recorded; a recorded error is the error of a goroutine that has returned.
\<close>

definition fanout_inv :: "RocketPool \<Rightarrow> minipool list \<Rightarrow> fanout \<Rightarrow> bool" where
  "fanout_inv rp minipools st \<longleftrightarrow>
     length (statuses st) = length minipools \<and>
     set (running st) \<subseteq> {..<length minipools} \<and>
     distinct (writes st) \<and>
     (\<forall>i < length minipools.
        if i \<in> set (running st) then statuses st ! i = Initialized \<and> i \<notin> set (writes st)
        else (case GetStatus rp (minipools ! i) of
                Inr s \<Rightarrow> statuses st ! i = s \<and> i \<in> set (writes st)
              | Inl e \<Rightarrow> statuses st ! i = Initialized \<and> i \<notin> set (writes st) \<and> err st \<noteq> None)) \<and>
     set (writes st) \<subseteq> {..<length minipools} \<and>
     (\<forall>e. err st = Some e \<longrightarrow>
        (\<exists>i < length minipools. i \<notin> set (running st) \<and> GetStatus rp (minipools ! i) = Inl e))"

section \<open>Example ledgers and contexts\<close>

text \<open>
  The owner \<open>1\<close> has three minipools, with statuses Prelaunch, Staking, Prelaunch; every
  other owner has none.
\<close>

definition scenario_ledger :: RocketPool where
  "scenario_ledger =
     \<lparr>GetNodeMinipoolAddresses = (\<lambda>owner. if owner = 1 then Inr [10, 11, 12] else Inr []),
      NewMinipool = (\<lambda>a. Inr \<lparr>Address = a\<rparr>),
      GetStatus = (\<lambda>mp. if Address mp = 11 then Inr Staking else Inr Prelaunch)\<rparr>"

text \<open>The same ledger when the status query of the second minipool fails.\<close>

definition failing_ledger :: RocketPool where
  "failing_ledger =
     \<lparr>GetNodeMinipoolAddresses = (\<lambda>owner. if owner = 1 then Inr [10, 11, 12] else Inr []),
      NewMinipool = (\<lambda>a. Inr \<lparr>Address = a\<rparr>),
      GetStatus = (\<lambda>mp. if Address mp = 11 then Inl ''network failure'' else Inr Prelaunch)\<rparr>"

definition ready_context :: Context where
  "ready_context =
     \<lparr>WaitNodeRegistered = None, GetAccountManager = None, GetRocketPool = None,
      WaitClientSynced = None\<rparr>"

definition unregistered_context :: Context where
  "unregistered_context = ready_context\<lparr>WaitNodeRegistered := Some ''node not registered''\<rparr>"

definition unsynced_context :: Context where
  "unsynced_context = ready_context\<lparr>WaitClientSynced := Some ''client not synced''\<rparr>"

definition node_manager :: AccountManager where
  "node_manager = \<lparr>GetNodeAccount = Inr \<lparr>AccountAddress = 1\<rparr>\<rparr>"

text \<open>The account manager of an owner for whom the ledger lists no minipool.\<close>

definition idle_manager :: AccountManager where
  "idle_manager = \<lparr>GetNodeAccount = Inr \<lparr>AccountAddress = 2\<rparr>\<rparr>"

definition quiet_world :: world where
  "quiet_world = \<lparr>events = []\<rparr>"

definition quiet_probe :: probe where
  "quiet_probe = \<lparr>events = [], attempts = []\<rparr>"

text \<open>
  A timeline whose first cycle finds the client not synced, whose second cycle has a
  failing status query, and whose later cycles see the scenario ledger.
\<close>

definition example_timeline :: "nat \<Rightarrow> moment" where
  "example_timeline t =
     \<lparr>ctx = (if t = 0 then unsynced_context else ready_context),
      manager = node_manager,
      ledger = (if t = 1 then failing_ledger else scenario_ledger),
      completion = [2, 0]\<rparr>"

text \<open>An outcome under which the action fails for the minipool at address \<open>10\<close> only.\<close>

definition fails_at_10 :: "minipool \<Rightarrow> error option" where
  "fails_at_10 mp = (if Address mp = 10 then Some ''out of gas'' else None)"

section \<open>Lemmas on the fan-out\<close>

lemma fanout_inv_init: "fanout_inv rp minipools (fanout_init (length minipools))"
  by (auto simp: fanout_inv_def fanout_init_def)

lemma running_sched_step:
  "running (sched_step rp minipools i st) = removeAll i (running st)"
  by (simp add: sched_step_def goroutine_def status_task_def split: sum.splits option.splits)

lemma fanout_inv_step:
  assumes "fanout_inv rp minipools st"
  shows "fanout_inv rp minipools (sched_step rp minipools i st)"
proof (cases "i \<in> set (running st)")
  case False
  then show ?thesis using assms by (simp add: sched_step_def)
next
  case True
  with assms have lt: "i < length minipools" by (auto simp: fanout_inv_def)
  show ?thesis
  proof (cases "GetStatus rp (minipools ! i)")
    case (Inl e)
    then show ?thesis using assms True lt
      apply (simp add: sched_step_def goroutine_def status_task_def fanout_inv_def)
      apply (auto split: sum.splits if_splits)
      done
  next
    case (Inr s)
    then show ?thesis using assms True lt
      apply (simp add: sched_step_def goroutine_def status_task_def fanout_inv_def)
      apply (auto split: sum.splits if_splits simp: nth_list_update)
      done
  qed
qed

lemma fanout_inv_fold:
  "fanout_inv rp minipools st \<Longrightarrow> fanout_inv rp minipools (fold (sched_step rp minipools) xs st)"
  by (induction xs arbitrary: st) (simp_all add: fanout_inv_step)

lemma running_fold:
  "running (fold (sched_step rp minipools) xs st) = filter (\<lambda>i. i \<notin> set xs) (running st)"
proof (induction xs arbitrary: st)
  case Nil
  then show ?case by simp
next
  case (Cons x xs)
  have "filter (\<lambda>i. i \<notin> set xs) (removeAll x ys) = filter (\<lambda>i. i \<notin> set (x # xs)) ys" for ys
    by (induction ys) auto
  then show ?case using Cons by (simp add: running_sched_step)
qed

lemma running_wg_Wait:
  assumes "fanout_inv rp minipools st"
  shows "running (wg_Wait rp minipools sched st) = []"
proof -
  have "set (running st) \<subseteq> {..<length minipools}"
    using assms by (simp add: fanout_inv_def)
  then have "filter (\<lambda>i. i \<notin> set (sched @ [0..<length minipools])) (running st) = []"
    by (auto simp: filter_empty_conv)
  then show ?thesis by (simp add: wg_Wait_def running_fold)
qed

lemma fanout_inv_wg_Wait:
  "fanout_inv rp minipools st \<Longrightarrow> fanout_inv rp minipools (wg_Wait rp minipools sched st)"
  by (simp add: wg_Wait_def fanout_inv_fold)


lemma filter_prelaunch_fold:
  "fold (\<lambda>mi acc. if sts ! mi = Prelaunch then acc @ [minipools ! mi] else acc) xs acc =
     acc @ map (\<lambda>mi. minipools ! mi) (filter (\<lambda>mi. sts ! mi = Prelaunch) xs)"
  by (induction xs arbitrary: acc) simp_all

lemma filter_prelaunch_eq:
  "filter_prelaunch minipools sts =
     map (\<lambda>mi. minipools ! mi) (filter (\<lambda>mi. sts ! mi = Prelaunch) [0..<length minipools])"
  by (simp add: filter_prelaunch_def filter_prelaunch_fold)

lemma filter_by_index:
  "map (\<lambda>i. xs ! i) (filter (\<lambda>i. P (xs ! i)) [0..<length xs]) = filter P xs"
proof -
  have "filter P (map (\<lambda>i. xs ! i) [0..<length xs]) =
          map (\<lambda>i. xs ! i) (filter (\<lambda>i. P (xs ! i)) [0..<length xs])"
    by (simp add: filter_map comp_def)
  then show ?thesis by (simp add: map_nth)
qed

lemma fanout_final_inv: "fanout_inv rp minipools (status_fanout rp minipools sched)"
  by (simp add: status_fanout_def fanout_inv_wg_Wait fanout_inv_init)

lemma fanout_final_running: "running (status_fanout rp minipools sched) = []"
  by (simp add: status_fanout_def running_wg_Wait fanout_inv_init)

lemma fanout_final_status:
  assumes "i < length minipools" "GetStatus rp (minipools ! i) = Inr s"
  shows "statuses (status_fanout rp minipools sched) ! i = s"
  using fanout_final_inv [of rp minipools sched] fanout_final_running [of rp minipools sched] assms
  by (auto simp: fanout_inv_def)

lemma fanout_final_err_None:
  "err (status_fanout rp minipools sched) = None \<longleftrightarrow>
     (\<forall>mp \<in> set minipools. \<exists>s. GetStatus rp mp = Inr s)"
proof
  assume n: "err (status_fanout rp minipools sched) = None"
  show "\<forall>mp \<in> set minipools. \<exists>s. GetStatus rp mp = Inr s"
  proof
    fix mp assume "mp \<in> set minipools"
    then obtain i where i: "i < length minipools" "minipools ! i = mp"
      by (auto simp: in_set_conv_nth)
    show "\<exists>s. GetStatus rp mp = Inr s"
    proof (cases "GetStatus rp mp")
      case (Inr s) then show ?thesis by blast
    next
      case (Inl e)
      with i n fanout_final_inv [of rp minipools sched] fanout_final_running [of rp minipools sched]
      show ?thesis by (auto simp: fanout_inv_def)
    qed
  qed
next
  assume a: "\<forall>mp \<in> set minipools. \<exists>s. GetStatus rp mp = Inr s"
  show "err (status_fanout rp minipools sched) = None"
  proof (cases "err (status_fanout rp minipools sched)")
    case None then show ?thesis .
  next
    case (Some e)
    with fanout_final_inv [of rp minipools sched]
    obtain i where "i < length minipools" "GetStatus rp (minipools ! i) = Inl e"
      by (auto simp: fanout_inv_def)
    with a show ?thesis by (metis nth_mem sum.distinct(1))
  qed
qed

lemma fanout_final_err_Some:
  "err (status_fanout rp minipools sched) = Some e \<Longrightarrow>
     \<exists>mp \<in> set minipools. GetStatus rp mp = Inl e"
  using fanout_final_inv [of rp minipools sched] by (auto simp: fanout_inv_def)

lemma fanout_final_filter:
  assumes "\<forall>mp \<in> set minipools. \<exists>s. GetStatus rp mp = Inr s"
  shows "filter_prelaunch minipools (statuses (status_fanout rp minipools sched)) =
           filter (\<lambda>mp. GetStatus rp mp = Inr Prelaunch) minipools"
proof -
  have "statuses (status_fanout rp minipools sched) ! i = Prelaunch \<longleftrightarrow>
          GetStatus rp (minipools ! i) = Inr Prelaunch" if "i < length minipools" for i
  proof -
    from that assms obtain s where "GetStatus rp (minipools ! i) = Inr s"
      using nth_mem by blast
    with that fanout_final_status [of i minipools rp s sched] show ?thesis by simp
  qed
  then have "filter (\<lambda>mi. statuses (status_fanout rp minipools sched) ! mi = Prelaunch)
               [0..<length minipools] =
             filter (\<lambda>mi. GetStatus rp (minipools ! mi) = Inr Prelaunch) [0..<length minipools]"
    by (intro filter_cong) auto
  then show ?thesis
    by (simp add: filter_prelaunch_eq filter_by_index [where P = "\<lambda>mp. GetStatus rp mp = Inr Prelaunch"])
qed

lemma getPrelaunchMinipools_success:
  assumes "GetNodeMinipoolAddresses rp a = Inr addresses"
    and "create_minipools rp addresses = Inr minipools"
    and "\<forall>mp \<in> set minipools. \<exists>s. GetStatus rp mp = Inr s"
  shows "getPrelaunchMinipools rp sched a =
           (filter (\<lambda>mp. GetStatus rp mp = Inr Prelaunch) minipools, None)"
proof -
  have "err (status_fanout rp minipools sched) = None"
    using assms(3) by (simp add: fanout_final_err_None)
  then show ?thesis
    using assms fanout_final_filter [OF assms(3), of sched]
    by (simp add: getPrelaunchMinipools_def status_fanout_def)
qed

lemma getPrelaunchMinipools_query_failure:
  assumes "GetNodeMinipoolAddresses rp a = Inr addresses"
    and "create_minipools rp addresses = Inr minipools"
    and "\<exists>mp \<in> set minipools. \<exists>e. GetStatus rp mp = Inl e"
  shows "\<exists>e. getPrelaunchMinipools rp sched a = ([], Some e) \<and>
              (\<exists>mp \<in> set minipools. GetStatus rp mp = Inl e)"
proof -
  have "err (status_fanout rp minipools sched) \<noteq> None"
    using assms(3) fanout_final_err_None [of rp minipools sched] by auto
  then obtain e where e: "err (status_fanout rp minipools sched) = Some e" by blast
  then have "getPrelaunchMinipools rp sched a = ([], Some e)"
    using assms by (simp add: getPrelaunchMinipools_def status_fanout_def)
  with fanout_final_err_Some [OF e] show ?thesis by blast
qed

lemma getPrelaunchMinipools_error_empty:
  "snd (getPrelaunchMinipools rp sched a) \<noteq> None \<Longrightarrow> fst (getPrelaunchMinipools rp sched a) = []"
  by (auto simp: getPrelaunchMinipools_def Let_def split: sum.splits option.splits)

lemma create_minipools_cong:
  "NewMinipool rp' = NewMinipool rp \<Longrightarrow> create_minipools rp' addresses = create_minipools rp addresses"
  by (induction addresses) (auto split: sum.splits)

lemma create_minipools_set:
  "create_minipools rp addresses = Inr minipools \<Longrightarrow>
     set minipools = {mp. \<exists>a \<in> set addresses. NewMinipool rp a = Inr mp}"
proof (induction addresses arbitrary: minipools)
  case Nil
  then show ?case by simp
next
  case (Cons a addresses)
  from Cons.prems obtain mp rest where
    mp: "NewMinipool rp a = Inr mp" and
    rest: "create_minipools rp addresses = Inr rest" and
    eq: "minipools = mp # rest"
    by (auto split: sum.splits)
  from Cons.IH [OF rest] mp eq show ?case by auto
qed

lemma create_minipools_each:
  "create_minipools rp addresses = Inr minipools \<Longrightarrow>
     \<forall>a \<in> set addresses. \<exists>mp. NewMinipool rp a = Inr mp"
proof (induction addresses arbitrary: minipools)
  case Nil
  then show ?case by simp
next
  case (Cons a addresses)
  from Cons.prems obtain mp rest where
    mp: "NewMinipool rp a = Inr mp" and
    rest: "create_minipools rp addresses = Inr rest"
    by (auto split: sum.splits)
  from Cons.IH [OF rest] mp show ?case by auto
qed

lemma create_minipools_total:
  "\<forall>a \<in> set addresses. \<exists>mp. NewMinipool rp a = Inr mp \<Longrightarrow>
     \<exists>minipools. create_minipools rp addresses = Inr minipools"
  by (induction addresses) (auto split: sum.splits)

lemma getPrelaunchMinipools_listing_cong:
  assumes "GetNodeMinipoolAddresses rp' nodeAddress = Inr addresses'"
    and "NewMinipool rp' = NewMinipool rp" and "GetStatus rp' = GetStatus rp"
    and "GetNodeMinipoolAddresses rp nodeAddress = Inr addresses"
    and "create_minipools rp addresses = Inr minipools"
    and "\<forall>mp \<in> set minipools. \<exists>s. GetStatus rp mp = Inr s"
    and "set addresses' = set addresses"
  shows "set (fst (getPrelaunchMinipools rp' sched' nodeAddress)) =
         set (fst (getPrelaunchMinipools rp sched nodeAddress))"
proof -
  have "\<forall>a \<in> set addresses'. \<exists>mp. NewMinipool rp a = Inr mp"
    using create_minipools_each [OF assms(5)] assms(7) by simp
  then obtain minipools' where c: "create_minipools rp addresses' = Inr minipools'"
    using create_minipools_total by blast
  have s: "set minipools' = set minipools"
    using create_minipools_set [OF c] create_minipools_set [OF assms(5)] assms(7) by simp
  have c': "create_minipools rp' addresses' = Inr minipools'"
    using c create_minipools_cong [OF assms(2)] by simp
  have q': "\<forall>mp \<in> set minipools'. \<exists>s. GetStatus rp' mp = Inr s"
    using assms(3,6) s by simp
  show ?thesis
    using getPrelaunchMinipools_success [OF assms(1) c' q', of sched']
      getPrelaunchMinipools_success [OF assms(4,5,6), of sched] s assms(3)
    by simp
qed

lemma goroutine_statuses_other:
  "j \<noteq> mi \<Longrightarrow> statuses (goroutine rp minipools mi st) ! j = statuses st ! j"
  by (simp add: goroutine_def status_task_def split: sum.splits)

lemma goroutine_statuses_length:
  "length (statuses (goroutine rp minipools mi st)) = length (statuses st)"
  by (simp add: goroutine_def status_task_def split: sum.splits)

lemma goroutine_writes:
  "writes (goroutine rp minipools mi st) =
     (case GetStatus rp (minipools ! mi) of Inr s \<Rightarrow> writes st @ [mi] | Inl e \<Rightarrow> writes st)"
  by (simp add: goroutine_def status_task_def split: sum.splits)

lemma goroutine_failed_query:
  "GetStatus rp (minipools ! mi) = Inl e \<Longrightarrow>
     statuses (goroutine rp minipools mi st) = statuses st"
  by (simp add: goroutine_def status_task_def)

lemma fanout_inv_reachable:
  "fanout_inv rp minipools (fold (sched_step rp minipools) xs (fanout_init (length minipools)))"
  by (simp add: fanout_inv_fold fanout_inv_init)

lemma fanout_inv_written:
  assumes "fanout_inv rp minipools st" "i \<in> set (writes st)"
  shows "i < length minipools \<and> i \<notin> set (running st) \<and>
         (\<exists>s. GetStatus rp (minipools ! i) = Inr s \<and> statuses st ! i = s)"
proof -
  from assms have lt: "i < length minipools" by (auto simp: fanout_inv_def)
  with assms have nr: "i \<notin> set (running st)" by (auto simp: fanout_inv_def)
  from assms(1) have "\<forall>i < length minipools.
        if i \<in> set (running st) then statuses st ! i = Initialized \<and> i \<notin> set (writes st)
        else (case GetStatus rp (minipools ! i) of
                Inr s \<Rightarrow> statuses st ! i = s \<and> i \<in> set (writes st)
              | Inl e \<Rightarrow> statuses st ! i = Initialized \<and> i \<notin> set (writes st) \<and> err st \<noteq> None)"
    by (simp add: fanout_inv_def)
  with lt nr have "case GetStatus rp (minipools ! i) of
                Inr s \<Rightarrow> statuses st ! i = s \<and> i \<in> set (writes st)
              | Inl e \<Rightarrow> statuses st ! i = Initialized \<and> i \<notin> set (writes st) \<and> err st \<noteq> None"
    by auto
  with assms(2) lt nr show ?thesis by (cases "GetStatus rp (minipools ! i)") auto
qed

lemma fanout_final_written:
  assumes "i < length minipools"
  shows "i \<in> set (writes (status_fanout rp minipools sched)) \<longleftrightarrow>
         (\<exists>s. GetStatus rp (minipools ! i) = Inr s)"
  using fanout_final_inv [of rp minipools sched] fanout_final_running [of rp minipools sched] assms
  by (cases "GetStatus rp (minipools ! i)") (auto simp: fanout_inv_def)

section \<open>The status aggregator: claims\<close>

text \<open>
  C7 (empty owner): when the ledger lists no minipool address for the owner,
  \<^verbatim>\<open>getPrelaunchMinipools\<close> returns the empty list and no error, whatever the schedule.
\<close>

theorem getPrelaunchMinipools_no_minipools:
  "GetNodeMinipoolAddresses rp nodeAddress = Inr [] \<Longrightarrow>
     getPrelaunchMinipools rp sched nodeAddress = ([], None)"
  using getPrelaunchMinipools_success [of rp nodeAddress "[]" "[]" sched] by simp

theorem getPrelaunchMinipools_no_minipools_witness:
  "GetNodeMinipoolAddresses scenario_ledger 2 = Inr [] \<and>
   getPrelaunchMinipools scenario_ledger [3, 1] 2 = ([], None)"
proof -
  have h: "GetNodeMinipoolAddresses scenario_ledger 2 = Inr []"
    by (simp add: scenario_ledger_def)
  from h getPrelaunchMinipools_no_minipools [OF h, of "[3, 1]"] show ?thesis by simp
qed

text \<open>
  C1 (all-or-nothing aggregation): if the listing of the owner's minipool addresses
  fails, or the listing and the contract bindings succeed and the status query of at
  least one minipool returns an error, then \<^verbatim>\<open>getPrelaunchMinipools\<close> returns an error
  together with the empty list, under every schedule; and in no case at all is a
  non-empty list returned together with an error.
\<close>

theorem getPrelaunchMinipools_all_or_nothing:
  "(((\<exists>e. GetNodeMinipoolAddresses rp nodeAddress = Inl e) \<or>
     (\<exists>addresses minipools.
        GetNodeMinipoolAddresses rp nodeAddress = Inr addresses \<and>
        create_minipools rp addresses = Inr minipools \<and>
        (\<exists>mp \<in> set minipools. \<exists>e. GetStatus rp mp = Inl e))) \<longrightarrow>
    (\<exists>e. getPrelaunchMinipools rp sched nodeAddress = ([], Some e))) \<and>
   (snd (getPrelaunchMinipools rp sched nodeAddress) \<noteq> None \<longrightarrow>
    fst (getPrelaunchMinipools rp sched nodeAddress) = [])"
proof (intro conjI impI)
  assume "(\<exists>e. GetNodeMinipoolAddresses rp nodeAddress = Inl e) \<or>
     (\<exists>addresses minipools.
        GetNodeMinipoolAddresses rp nodeAddress = Inr addresses \<and>
        create_minipools rp addresses = Inr minipools \<and>
        (\<exists>mp \<in> set minipools. \<exists>e. GetStatus rp mp = Inl e))"
  then show "\<exists>e. getPrelaunchMinipools rp sched nodeAddress = ([], Some e)"
  proof
    assume "\<exists>e. GetNodeMinipoolAddresses rp nodeAddress = Inl e"
    then show ?thesis by (auto simp: getPrelaunchMinipools_def)
  next
    assume "\<exists>addresses minipools.
        GetNodeMinipoolAddresses rp nodeAddress = Inr addresses \<and>
        create_minipools rp addresses = Inr minipools \<and>
        (\<exists>mp \<in> set minipools. \<exists>e. GetStatus rp mp = Inl e)"
    then obtain addresses minipools where
      "GetNodeMinipoolAddresses rp nodeAddress = Inr addresses"
      "create_minipools rp addresses = Inr minipools"
      "\<exists>mp \<in> set minipools. \<exists>e. GetStatus rp mp = Inl e" by blast
    from getPrelaunchMinipools_query_failure [OF this, of sched] show ?thesis by blast
  qed
next
  assume "snd (getPrelaunchMinipools rp sched nodeAddress) \<noteq> None"
  then show "fst (getPrelaunchMinipools rp sched nodeAddress) = []"
    by (rule getPrelaunchMinipools_error_empty)
qed

theorem getPrelaunchMinipools_all_or_nothing_witness:
  "GetNodeMinipoolAddresses failing_ledger 1 = Inr [10, 11, 12] \<and>
   create_minipools failing_ledger [10, 11, 12] =
     Inr [\<lparr>Address = 10\<rparr>, \<lparr>Address = 11\<rparr>, \<lparr>Address = 12\<rparr>] \<and>
   GetStatus failing_ledger \<lparr>Address = 11\<rparr> = Inl ''network failure'' \<and>
   (\<exists>e. getPrelaunchMinipools failing_ledger [2, 0] 1 = ([], Some e)) \<and>
   snd (getPrelaunchMinipools failing_ledger [2, 0] 1) \<noteq> None \<and>
   fst (getPrelaunchMinipools failing_ledger [2, 0] 1) = []"
proof -
  have a: "GetNodeMinipoolAddresses failing_ledger 1 = Inr [10, 11, 12]"
    by (simp add: failing_ledger_def)
  have b: "create_minipools failing_ledger [10, 11, 12] =
     Inr [\<lparr>Address = 10\<rparr>, \<lparr>Address = 11\<rparr>, \<lparr>Address = 12\<rparr>]"
    by (simp add: failing_ledger_def)
  have c: "GetStatus failing_ledger \<lparr>Address = 11\<rparr> = Inl ''network failure''"
    by (simp add: failing_ledger_def)
  have d: "\<exists>mp \<in> set [\<lparr>Address = 10\<rparr>, \<lparr>Address = 11\<rparr>, \<lparr>Address = 12\<rparr>].
             \<exists>e. GetStatus failing_ledger mp = Inl e"
    using c by simp
  from a b d getPrelaunchMinipools_all_or_nothing [of failing_ledger 1 "[2, 0]"]
  have e: "(\<exists>e. getPrelaunchMinipools failing_ledger [2, 0] 1 = ([], Some e))"
    and f: "snd (getPrelaunchMinipools failing_ledger [2, 0] 1) \<noteq> None \<longrightarrow>
      fst (getPrelaunchMinipools failing_ledger [2, 0] 1) = []"
    by blast+
  from e have g: "snd (getPrelaunchMinipools failing_ledger [2, 0] 1) \<noteq> None" by auto
  from a b c e f g show ?thesis by blast
qed

text \<open>
  C2 (filter correctness): when the listing, the contract bindings and every status
  query succeed, \<^verbatim>\<open>getPrelaunchMinipools\<close> returns, with no error, exactly the discovered
  minipools whose queried status is \<open>Prelaunch\<close> (in discovery order): a minipool is
  in the result if and only if it was discovered and its status is \<open>Prelaunch\<close>. The
  set returned does not depend on the order of discovery: listing the same addresses
  in another order gives the same set. The witness is the scenario of statuses
  Prelaunch, Staking, Prelaunch.
\<close>

theorem getPrelaunchMinipools_filter:
  assumes "GetNodeMinipoolAddresses rp nodeAddress = Inr addresses"
    and "create_minipools rp addresses = Inr minipools"
    and "\<forall>mp \<in> set minipools. \<exists>s. GetStatus rp mp = Inr s"
  shows "getPrelaunchMinipools rp sched nodeAddress =
           (filter (\<lambda>mp. GetStatus rp mp = Inr Prelaunch) minipools, None) \<and>
         (\<forall>mp. mp \<in> set (fst (getPrelaunchMinipools rp sched nodeAddress)) \<longleftrightarrow>
                 mp \<in> set minipools \<and> GetStatus rp mp = Inr Prelaunch) \<and>
         (\<forall>addresses' sched'. set addresses' = set addresses \<longrightarrow>
            set (fst (getPrelaunchMinipools
                       (rp\<lparr>GetNodeMinipoolAddresses := \<lambda>owner. Inr addresses'\<rparr>)
                       sched' nodeAddress)) =
            set (fst (getPrelaunchMinipools rp sched nodeAddress)))"
proof (intro conjI allI impI)
  show r: "getPrelaunchMinipools rp sched nodeAddress =
           (filter (\<lambda>mp. GetStatus rp mp = Inr Prelaunch) minipools, None)"
    using assms by (rule getPrelaunchMinipools_success)
  show "mp \<in> set (fst (getPrelaunchMinipools rp sched nodeAddress)) \<longleftrightarrow>
          mp \<in> set minipools \<and> GetStatus rp mp = Inr Prelaunch" for mp
    by (simp add: r)
  show "set (fst (getPrelaunchMinipools
                       (rp\<lparr>GetNodeMinipoolAddresses := \<lambda>owner. Inr addresses'\<rparr>)
                       sched' nodeAddress)) =
            set (fst (getPrelaunchMinipools rp sched nodeAddress))"
    if "set addresses' = set addresses" for addresses' sched'
    using that assms
    by (intro getPrelaunchMinipools_listing_cong [where addresses' = addresses'
          and addresses = addresses and minipools = minipools]) simp_all
qed

theorem getPrelaunchMinipools_filter_witness:
  "GetNodeMinipoolAddresses scenario_ledger 1 = Inr [10, 11, 12] \<and>
   create_minipools scenario_ledger [10, 11, 12] =
     Inr [\<lparr>Address = 10\<rparr>, \<lparr>Address = 11\<rparr>, \<lparr>Address = 12\<rparr>] \<and>
   GetStatus scenario_ledger \<lparr>Address = 10\<rparr> = Inr Prelaunch \<and>
   GetStatus scenario_ledger \<lparr>Address = 11\<rparr> = Inr Staking \<and>
   GetStatus scenario_ledger \<lparr>Address = 12\<rparr> = Inr Prelaunch \<and>
   getPrelaunchMinipools scenario_ledger [2, 0] 1 =
     ([\<lparr>Address = 10\<rparr>, \<lparr>Address = 12\<rparr>], None) \<and>
   set (fst (getPrelaunchMinipools
               (scenario_ledger\<lparr>GetNodeMinipoolAddresses := \<lambda>owner. Inr [12, 11, 10]\<rparr>)
               [1] 1)) =
     {\<lparr>Address = 10\<rparr>, \<lparr>Address = 12\<rparr>}"
proof -
  have a: "GetNodeMinipoolAddresses scenario_ledger 1 = Inr [10, 11, 12]"
    by (simp add: scenario_ledger_def)
  have b: "create_minipools scenario_ledger [10, 11, 12] =
     Inr [\<lparr>Address = 10\<rparr>, \<lparr>Address = 11\<rparr>, \<lparr>Address = 12\<rparr>]"
    by (simp add: scenario_ledger_def)
  have c: "GetStatus scenario_ledger \<lparr>Address = 10\<rparr> = Inr Prelaunch"
    "GetStatus scenario_ledger \<lparr>Address = 11\<rparr> = Inr Staking"
    "GetStatus scenario_ledger \<lparr>Address = 12\<rparr> = Inr Prelaunch"
    by (simp_all add: scenario_ledger_def)
  have d: "\<forall>mp \<in> set [\<lparr>Address = 10\<rparr>, \<lparr>Address = 11\<rparr>, \<lparr>Address = 12\<rparr>].
             \<exists>s. GetStatus scenario_ledger mp = Inr s"
    using c by simp
  have e: "set [12, 11, 10] = set [10, 11, 12 :: address]" by auto
  note t = getPrelaunchMinipools_filter [OF a b d, of "[2, 0]"]
  from t have r: "getPrelaunchMinipools scenario_ledger [2, 0] 1 =
     ([\<lparr>Address = 10\<rparr>, \<lparr>Address = 12\<rparr>], None)"
    using c by simp
  from t e have "set (fst (getPrelaunchMinipools
               (scenario_ledger\<lparr>GetNodeMinipoolAddresses := \<lambda>owner. Inr [12, 11, 10]\<rparr>)
               [1] 1)) = set (fst (getPrelaunchMinipools scenario_ledger [2, 0] 1))"
    by blast
  with r have s: "set (fst (getPrelaunchMinipools
               (scenario_ledger\<lparr>GetNodeMinipoolAddresses := \<lambda>owner. Inr [12, 11, 10]\<rparr>)
               [1] 1)) = {\<lparr>Address = 10\<rparr>, \<lparr>Address = 12\<rparr>}"
    by simp
  from a b c r s show ?thesis by blast
qed

text \<open>
  C8 (idempotence): two runs of \<^verbatim>\<open>getPrelaunchMinipools\<close> against the same answers of
  the ledger return the same filtered list, and fail or succeed alike, however the
  goroutines of either run are scheduled.
\<close>

theorem getPrelaunchMinipools_idempotent:
  "fst (getPrelaunchMinipools rp sched nodeAddress) =
     fst (getPrelaunchMinipools rp sched' nodeAddress) \<and>
   (snd (getPrelaunchMinipools rp sched nodeAddress) = None) =
     (snd (getPrelaunchMinipools rp sched' nodeAddress) = None)"
proof (cases "GetNodeMinipoolAddresses rp nodeAddress")
  case (Inl e)
  then show ?thesis by (simp add: getPrelaunchMinipools_def)
next
  case a: (Inr addresses)
  show ?thesis
  proof (cases "create_minipools rp addresses")
    case (Inl e)
    with a show ?thesis by (simp add: getPrelaunchMinipools_def)
  next
    case c: (Inr minipools)
    show ?thesis
    proof (cases "\<forall>mp \<in> set minipools. \<exists>s. GetStatus rp mp = Inr s")
      case True
      from getPrelaunchMinipools_success [OF a c True, of sched]
        getPrelaunchMinipools_success [OF a c True, of sched']
      show ?thesis by simp
    next
      case False
      then have f: "\<exists>mp \<in> set minipools. \<exists>e. GetStatus rp mp = Inl e"
        by (metis sum.exhaust)
      from getPrelaunchMinipools_query_failure [OF a c f, of sched]
        getPrelaunchMinipools_query_failure [OF a c f, of sched']
      show ?thesis by auto
    qed
  qed
qed

theorem getPrelaunchMinipools_idempotent_witness:
  "fst (getPrelaunchMinipools scenario_ledger [2, 0] 1) =
     fst (getPrelaunchMinipools scenario_ledger [1] 1) \<and>
   fst (getPrelaunchMinipools scenario_ledger [2, 0] 1) = [\<lparr>Address = 10\<rparr>, \<lparr>Address = 12\<rparr>]"
proof -
  have "getPrelaunchMinipools scenario_ledger [2, 0] 1 =
     ([\<lparr>Address = 10\<rparr>, \<lparr>Address = 12\<rparr>], None)"
    by code_simp
  with getPrelaunchMinipools_idempotent [of scenario_ledger "[2, 0]" 1 "[1]"]
  show ?thesis by simp
qed

text \<open>
  C9 (write-once result slots): the goroutine of index \<open>mi\<close> changes no slot of
  \<^verbatim>\<open>statuses\<close> other than slot \<open>mi\<close>, performs its one assignment only when its own
  query succeeded and leaves the slice as it is otherwise; in every state the fan-out
  can reach, no slot has been assigned twice (so no two goroutines have written the
  same slot), and every slot assigned belongs to a goroutine that has returned and
  whose query succeeded; when \<^verbatim>\<open>wg.Wait\<close> returns no goroutine is running, every slot
  whose query succeeded has been assigned, and the filter of \<^verbatim>\<open>getPrelaunchMinipools\<close>
  reads the slice of that state only.
\<close>

theorem status_fanout_write_once:
  "(\<forall>j. j \<noteq> mi \<longrightarrow> statuses (goroutine rp minipools mi st) ! j = statuses st ! j) \<and>
   length (statuses (goroutine rp minipools mi st)) = length (statuses st) \<and>
   writes (goroutine rp minipools mi st) =
     (case GetStatus rp (minipools ! mi) of Inr s \<Rightarrow> writes st @ [mi] | Inl e \<Rightarrow> writes st) \<and>
   ((\<exists>e. GetStatus rp (minipools ! mi) = Inl e) \<longrightarrow>
      statuses (goroutine rp minipools mi st) = statuses st) \<and>
   distinct (writes (fold (sched_step rp minipools) xs (fanout_init (length minipools)))) \<and>
   (\<forall>i \<in> set (writes (fold (sched_step rp minipools) xs (fanout_init (length minipools)))).
      i < length minipools \<and>
      i \<notin> set (running (fold (sched_step rp minipools) xs (fanout_init (length minipools)))) \<and>
      (\<exists>s. GetStatus rp (minipools ! i) = Inr s)) \<and>
   running (status_fanout rp minipools sched) = [] \<and>
   (\<forall>i < length minipools.
      (i \<in> set (writes (status_fanout rp minipools sched))) =
      (\<exists>s. GetStatus rp (minipools ! i) = Inr s)) \<and>
   (GetNodeMinipoolAddresses rp nodeAddress = Inr addresses \<and>
    create_minipools rp addresses = Inr minipools \<longrightarrow>
      getPrelaunchMinipools rp sched nodeAddress =
        (case err (status_fanout rp minipools sched) of
           Some e \<Rightarrow> ([], Some e)
         | None \<Rightarrow>
             (filter_prelaunch minipools (statuses (status_fanout rp minipools sched)), None)))"
proof (intro conjI allI impI ballI)
  show "statuses (goroutine rp minipools mi st) ! j = statuses st ! j" if "j \<noteq> mi" for j
    using that by (rule goroutine_statuses_other)
  show "length (statuses (goroutine rp minipools mi st)) = length (statuses st)"
    by (rule goroutine_statuses_length)
  show "writes (goroutine rp minipools mi st) =
     (case GetStatus rp (minipools ! mi) of Inr s \<Rightarrow> writes st @ [mi] | Inl e \<Rightarrow> writes st)"
    by (rule goroutine_writes)
  show "statuses (goroutine rp minipools mi st) = statuses st"
    if "\<exists>e. GetStatus rp (minipools ! mi) = Inl e"
    using that goroutine_failed_query by blast
  let ?st = "fold (sched_step rp minipools) xs (fanout_init (length minipools))"
  have inv: "fanout_inv rp minipools ?st" by (rule fanout_inv_reachable)
  then show "distinct (writes ?st)" by (simp add: fanout_inv_def)
  fix i assume "i \<in> set (writes ?st)"
  from fanout_inv_written [OF inv this]
  show "i < length minipools" "i \<notin> set (running ?st)" "\<exists>s. GetStatus rp (minipools ! i) = Inr s"
    by blast+
next
  show "running (status_fanout rp minipools sched) = []"
    by (rule fanout_final_running)
next
  fix i assume "i < length minipools"
  then show "(i \<in> set (writes (status_fanout rp minipools sched))) =
      (\<exists>s. GetStatus rp (minipools ! i) = Inr s)"
    by (rule fanout_final_written)
next
  assume "GetNodeMinipoolAddresses rp nodeAddress = Inr addresses \<and>
    create_minipools rp addresses = Inr minipools"
  then show "getPrelaunchMinipools rp sched nodeAddress =
        (case err (status_fanout rp minipools sched) of
           Some e \<Rightarrow> ([], Some e)
         | None \<Rightarrow>
             (filter_prelaunch minipools (statuses (status_fanout rp minipools sched)), None))"
    by (simp add: getPrelaunchMinipools_def Let_def)
qed

theorem status_fanout_write_once_witness:
  "GetStatus failing_ledger ([\<lparr>Address = 10\<rparr>, \<lparr>Address = 11\<rparr>, \<lparr>Address = 12\<rparr>] ! 1) =
     Inl ''network failure'' \<and>
   statuses (goroutine failing_ledger [\<lparr>Address = 10\<rparr>, \<lparr>Address = 11\<rparr>, \<lparr>Address = 12\<rparr>] 1
      (fanout_init 3)) = [Initialized, Initialized, Initialized] \<and>
   writes (fold (sched_step failing_ledger [\<lparr>Address = 10\<rparr>, \<lparr>Address = 11\<rparr>, \<lparr>Address = 12\<rparr>])
      [2, 1] (fanout_init 3)) = [2] \<and>
   running (fold (sched_step failing_ledger [\<lparr>Address = 10\<rparr>, \<lparr>Address = 11\<rparr>, \<lparr>Address = 12\<rparr>])
      [2, 1] (fanout_init 3)) = [0] \<and>
   GetStatus failing_ledger ([\<lparr>Address = 10\<rparr>, \<lparr>Address = 11\<rparr>, \<lparr>Address = 12\<rparr>] ! 2) =
     Inr Prelaunch \<and>
   running (status_fanout failing_ledger
      [\<lparr>Address = 10\<rparr>, \<lparr>Address = 11\<rparr>, \<lparr>Address = 12\<rparr>] [2, 1]) = [] \<and>
   writes (status_fanout failing_ledger
      [\<lparr>Address = 10\<rparr>, \<lparr>Address = 11\<rparr>, \<lparr>Address = 12\<rparr>] [2, 1]) = [2, 0] \<and>
   getPrelaunchMinipools failing_ledger [2, 1] 1 = ([], Some ''network failure'')"
proof -
  let ?mps = "[\<lparr>Address = 10\<rparr>, \<lparr>Address = 11\<rparr>, \<lparr>Address = 12\<rparr>]"
  have q1: "GetStatus failing_ledger (?mps ! 1) = Inl ''network failure''"
    by (simp add: failing_ledger_def)
  have q2: "GetStatus failing_ledger (?mps ! 2) = Inr Prelaunch"
    by (simp add: failing_ledger_def)
  have i3: "statuses (fanout_init 3) = [Initialized, Initialized, Initialized]"
    by (simp add: fanout_init_def numeral_3_eq_3)
  have w: "writes (fold (sched_step failing_ledger ?mps) [2, 1] (fanout_init 3)) = [2]"
    by code_simp
  have r: "running (fold (sched_step failing_ledger ?mps) [2, 1] (fanout_init 3)) = [0]"
    by code_simp
  have wf: "writes (status_fanout failing_ledger ?mps [2, 1]) = [2, 0]"
    by code_simp
  have ef: "err (status_fanout failing_ledger ?mps [2, 1]) = Some ''network failure''"
    by code_simp
  have a: "GetNodeMinipoolAddresses failing_ledger 1 = Inr [10, 11, 12]"
    by (simp add: failing_ledger_def)
  have b: "create_minipools failing_ledger [10, 11, 12] = Inr ?mps"
    by (simp add: failing_ledger_def)
  note t = status_fanout_write_once [where mi = 1 and rp = failing_ledger and minipools = ?mps
      and st = "fanout_init 3" and xs = "[2, 1]" and sched = "[2, 1]" and nodeAddress = 1
      and addresses = "[10, 11, 12]"]
  from t q1 have s1: "statuses (goroutine failing_ledger ?mps 1 (fanout_init 3)) =
      statuses (fanout_init 3)"
    by blast
  from t have s2: "running (status_fanout failing_ledger ?mps [2, 1]) = []"
    by blast
  from t a b have "getPrelaunchMinipools failing_ledger [2, 1] 1 =
        (case err (status_fanout failing_ledger ?mps [2, 1]) of
           Some e \<Rightarrow> ([], Some e)
         | None \<Rightarrow>
             (filter_prelaunch ?mps (statuses (status_fanout failing_ledger ?mps [2, 1])), None))"
    by blast
  with ef have s3: "getPrelaunchMinipools failing_ledger [2, 1] 1 = ([], Some ''network failure'')"
    by simp
  from q1 q2 s1 i3 w r s2 wf s3 show ?thesis by simp
qed

section \<open>Lemmas on the cycle and the loop\<close>

lemma stakeMinipool_eq:
  "stakeMinipool am mp w = (None, w\<lparr>events := events w @ stub_lines mp\<rparr>)"
  by (simp add: stakeMinipool_def log_Println_def stub_lines_def)

lemma stake_each_stub:
  "stake_each (stakeMinipool am) minipools w =
     w\<lparr>events := events w @ concat (map stub_lines minipools)\<rparr>"
  by (induction minipools arbitrary: w) (simp_all add: stakeMinipool_eq)

lemma stub_lines_no_failure: "Logged (LogCouldNotStake a e) \<notin> set (concat (map stub_lines minipools))"
  by (induction minipools) (simp_all add: stub_lines_def)

lemma stake_each_probe_attempts:
  "attempts (stake_each (probe_action outcome) minipools w) = attempts w @ map Address minipools"
  by (induction minipools arbitrary: w)
    (simp_all add: probe_action_def log_Println_def split: option.splits)

lemma stake_each_probe_events:
  "events (stake_each (probe_action outcome) minipools w) =
     events w @ concat (map (failure_lines outcome) minipools)"
  by (induction minipools arbitrary: w)
    (simp_all add: probe_action_def log_Println_def failure_lines_def split: option.splits)

lemma cycle_dispatch:
  assumes "WaitClientSynced c = None" "GetNodeAccount am = Inr nodeAccount"
    and "getPrelaunchMinipools rp sched (AccountAddress nodeAccount) = (minipools, None)"
  shows "stakePrelaunchMinipools_with act c am rp sched w =
           (None, if minipools = [] then w
                  else stake_each act minipools (log_Println (LogReady (length minipools)) w))"
  using assms by (simp add: stakePrelaunchMinipools_with_def)

lemma cycle_failure:
  "fst (stakePrelaunchMinipools_with act c am rp sched w) = Some e \<Longrightarrow>
     snd (stakePrelaunchMinipools_with act c am rp sched w) = w"
  by (auto simp: stakePrelaunchMinipools_with_def split: option.splits sum.splits prod.splits if_splits)

lemma cycle_cases:
  "(\<exists>e. stakePrelaunchMinipools_with act c am rp sched w = (Some e, w) \<and>
        (WaitClientSynced c = Some e \<or>
         (WaitClientSynced c = None \<and> GetNodeAccount am = Inl e) \<or>
         (\<exists>nodeAccount. WaitClientSynced c = None \<and> GetNodeAccount am = Inr nodeAccount \<and>
            getPrelaunchMinipools rp sched (AccountAddress nodeAccount) = ([], Some e)))) \<or>
   (\<exists>nodeAccount minipools. WaitClientSynced c = None \<and> GetNodeAccount am = Inr nodeAccount \<and>
        getPrelaunchMinipools rp sched (AccountAddress nodeAccount) = (minipools, None) \<and>
        stakePrelaunchMinipools_with act c am rp sched w =
           (None, if minipools = [] then w
                  else stake_each act minipools (log_Println (LogReady (length minipools)) w)))"
proof (cases "WaitClientSynced c")
  case (Some e)
  then show ?thesis by (simp add: stakePrelaunchMinipools_with_def)
next
  case None
  show ?thesis
  proof (cases "GetNodeAccount am")
    case (Inl e)
    with None show ?thesis by (simp add: stakePrelaunchMinipools_with_def)
  next
    case (Inr nodeAccount)
    obtain minipools r where g: "getPrelaunchMinipools rp sched (AccountAddress nodeAccount) = (minipools, r)"
      by (cases "getPrelaunchMinipools rp sched (AccountAddress nodeAccount)")
    show ?thesis
    proof (cases r)
      case n: None
      with None Inr g show ?thesis by (simp add: stakePrelaunchMinipools_with_def)
    next
      case (Some e)
      with g getPrelaunchMinipools_error_empty [of rp sched "AccountAddress nodeAccount"]
      have "minipools = []" by simp
      with None Inr g Some show ?thesis by (simp add: stakePrelaunchMinipools_with_def)
    qed
  qed
qed


lemma cycle_stub:
  assumes "WaitClientSynced c = None" "GetNodeAccount am = Inr nodeAccount"
    and "getPrelaunchMinipools rp sched (AccountAddress nodeAccount) = (minipools, None)"
  shows "stakePrelaunchMinipools c am rp sched w =
           (None, if minipools = [] then w
                  else w\<lparr>events := events w @
                         Logged (LogReady (length minipools)) # concat (map stub_lines minipools)\<rparr>)"
  using cycle_dispatch [OF assms, of "stakeMinipool am" w]
  by (simp add: stakePrelaunchMinipools_def stake_each_stub log_Println_def)

lemma stub_lines_no_ready: "Logged (LogReady n) \<notin> set (concat (map stub_lines minipools))"
  by (induction minipools) (simp_all add: stub_lines_def)

lemma cycle_real_cases:
  "(\<exists>e. stakePrelaunchMinipools c am rp sched w = (Some e, w) \<and>
        (WaitClientSynced c = Some e \<or>
         (WaitClientSynced c = None \<and> GetNodeAccount am = Inl e) \<or>
         (\<exists>nodeAccount. WaitClientSynced c = None \<and> GetNodeAccount am = Inr nodeAccount \<and>
            getPrelaunchMinipools rp sched (AccountAddress nodeAccount) = ([], Some e)))) \<or>
   (\<exists>nodeAccount minipools. WaitClientSynced c = None \<and> GetNodeAccount am = Inr nodeAccount \<and>
        getPrelaunchMinipools rp sched (AccountAddress nodeAccount) = (minipools, None) \<and>
        stakePrelaunchMinipools c am rp sched w =
           (None, if minipools = [] then w
                  else w\<lparr>events := events w @
                         Logged (LogReady (length minipools)) # concat (map stub_lines minipools)\<rparr>))"
  using cycle_cases [of "stakeMinipool am" c am rp sched w]
  by (auto simp: stakePrelaunchMinipools_def stake_each_stub log_Println_def)

lemma stake_loop_never_Some:
  assumes "stake_loop timeline t w = Some w'"
  shows False
  by (rule stake_loop.raw_induct [where P = "\<lambda>_ _ _ _. False", OF _ assms]) blast

lemma stake_loop_None: "stake_loop timeline t w = None"
  using stake_loop_never_Some [of timeline t w] by (cases "stake_loop timeline t w") auto

lemma cycle_failure_real:
  "fst (stakePrelaunchMinipools c am rp sched w) = Some e \<Longrightarrow>
     snd (stakePrelaunchMinipools c am rp sched w) = w"
  unfolding stakePrelaunchMinipools_def by (rule cycle_failure)

lemma loop_iteration_failure:
  assumes "fst (stakePrelaunchMinipools (ctx m) (manager m) (ledger m) (completion m) w) = Some e"
  shows "loop_iteration m w =
           time_Sleep stakePrelaunchMinipoolsInterval (log_Println (LogError e) w)"
proof -
  from assms cycle_failure_real [OF assms]
  have "stakePrelaunchMinipools (ctx m) (manager m) (ledger m) (completion m) w = (Some e, w)"
    by (simp add: prod_eq_iff)
  then show ?thesis by (simp add: loop_iteration_def)
qed

lemma cycle_fails_iff:
  "fst (stakePrelaunchMinipools c am rp sched w) = Some e \<longleftrightarrow>
     WaitClientSynced c = Some e \<or>
     (WaitClientSynced c = None \<and> GetNodeAccount am = Inl e) \<or>
     (\<exists>nodeAccount. WaitClientSynced c = None \<and> GetNodeAccount am = Inr nodeAccount \<and>
        snd (getPrelaunchMinipools rp sched (AccountAddress nodeAccount)) = Some e)"
  by (auto simp: stakePrelaunchMinipools_def stakePrelaunchMinipools_with_def
      split: option.splits sum.splits prod.splits)

lemma cycle_logged:
  "\<exists>ls. events (snd (stakePrelaunchMinipools c am rp sched w)) = events w @ map Logged ls"
proof -
  have s: "concat (map stub_lines minipools) =
        map Logged (concat (map (\<lambda>mp. [LogStaking (Address mp), LogNotImplemented,
          LogStaked (Address mp)]) minipools))" for minipools
    by (induction minipools) (simp_all add: stub_lines_def)
  from cycle_real_cases [of c am rp sched w]
  consider (fail) e where "stakePrelaunchMinipools c am rp sched w = (Some e, w)"
    | (ok) minipools where "stakePrelaunchMinipools c am rp sched w =
           (None, if minipools = [] then w
                  else w\<lparr>events := events w @
                         Logged (LogReady (length minipools)) # concat (map stub_lines minipools)\<rparr>)"
    by blast
  then show ?thesis
  proof cases
    case fail
    then have "events (snd (stakePrelaunchMinipools c am rp sched w)) = events w @ map Logged []"
      by simp
    then show ?thesis by blast
  next
    case ok
    show ?thesis
    proof (cases "minipools = []")
      case True
      with ok have "events (snd (stakePrelaunchMinipools c am rp sched w)) = events w @ map Logged []"
        by simp
      then show ?thesis by blast
    next
      case False
      with ok have "events (snd (stakePrelaunchMinipools c am rp sched w)) =
          events w @ map Logged (LogReady (length minipools) #
            concat (map (\<lambda>mp. [LogStaking (Address mp), LogNotImplemented,
              LogStaked (Address mp)]) minipools))"
        by (simp add: s)
      then show ?thesis by blast
    qed
  qed
qed

lemma loop_iteration_events:
  "\<exists>ls. events (loop_iteration m w) =
          events w @ map Logged ls @ [Slept stakePrelaunchMinipoolsInterval]"
proof -
  obtain r w' where c: "stakePrelaunchMinipools (ctx m) (manager m) (ledger m) (completion m) w = (r, w')"
    by (cases "stakePrelaunchMinipools (ctx m) (manager m) (ledger m) (completion m) w")
  from cycle_logged [of "ctx m" "manager m" "ledger m" "completion m" w] c
  obtain ls where ls: "events w' = events w @ map Logged ls" by auto
  show ?thesis
  proof (cases r)
    case None
    with c ls have "events (loop_iteration m w) =
        events w @ map Logged ls @ [Slept stakePrelaunchMinipoolsInterval]"
      by (simp add: loop_iteration_def time_Sleep_def)
    then show ?thesis by blast
  next
    case (Some e)
    with c ls have "events (loop_iteration m w) =
        events w @ map Logged (ls @ [LogError e]) @ [Slept stakePrelaunchMinipoolsInterval]"
      by (simp add: loop_iteration_def time_Sleep_def log_Println_def)
    then show ?thesis by blast
  qed
qed

lemma loop_iteration_sleeps:
  "length (filter (\<lambda>ev. ev = Slept stakePrelaunchMinipoolsInterval) (events (loop_iteration m w))) =
     Suc (length (filter (\<lambda>ev. ev = Slept stakePrelaunchMinipoolsInterval) (events w)))"
proof -
  from loop_iteration_events [of m w] obtain ls where
    "events (loop_iteration m w) = events w @ map Logged ls @ [Slept stakePrelaunchMinipoolsInterval]"
    by blast
  moreover have "filter (\<lambda>ev. ev = Slept stakePrelaunchMinipoolsInterval) (map Logged ls) = []"
    by (induction ls) simp_all
  ultimately show ?thesis by simp
qed

lemma loop_run_sleeps:
  "length (filter (\<lambda>ev. ev = Slept stakePrelaunchMinipoolsInterval) (events (loop_run timeline n w))) =
     length (filter (\<lambda>ev. ev = Slept stakePrelaunchMinipoolsInterval) (events w)) + n"
  by (induction n) (simp_all add: loop_iteration_sleeps)

section \<open>The cycle, the loop and the start: claims\<close>

text \<open>
  C10 (the action is a stub): \<^verbatim>\<open>stakeMinipool\<close> returns \<^verbatim>\<open>nil\<close> for every minipool,
  having printed the start line, the "not implemented" line and the success line, and
  changes nothing else. Hence the dispatch loop of the source never prints a
  "Could not stake minipool" line, and a cycle that dispatches reports every minipool
  of the filtered list as staked.
\<close>

theorem stakeMinipool_stub:
  "stakeMinipool am mp w =
     (None, w\<lparr>events := events w @
        [Logged (LogStaking (Address mp)), Logged LogNotImplemented,
         Logged (LogStaked (Address mp))]\<rparr>) \<and>
   stake_each (stakeMinipool am) minipools w =
     w\<lparr>events := events w @ concat (map stub_lines minipools)\<rparr> \<and>
   Logged (LogCouldNotStake a e) \<notin> set (concat (map stub_lines minipools)) \<and>
   (WaitClientSynced c = None \<and> GetNodeAccount am = Inr nodeAccount \<and>
    getPrelaunchMinipools rp sched (AccountAddress nodeAccount) = (minipools, None) \<and>
    minipools \<noteq> [] \<longrightarrow>
      stakePrelaunchMinipools c am rp sched w =
        (None, w\<lparr>events := events w @
           Logged (LogReady (length minipools)) # concat (map stub_lines minipools)\<rparr>))"
proof (intro conjI impI)
  show "stakeMinipool am mp w =
     (None, w\<lparr>events := events w @
        [Logged (LogStaking (Address mp)), Logged LogNotImplemented,
         Logged (LogStaked (Address mp))]\<rparr>)"
    by (simp add: stakeMinipool_eq stub_lines_def)
  show "stake_each (stakeMinipool am) minipools w =
     w\<lparr>events := events w @ concat (map stub_lines minipools)\<rparr>"
    by (rule stake_each_stub)
  show "Logged (LogCouldNotStake a e) \<notin> set (concat (map stub_lines minipools))"
    by (rule stub_lines_no_failure)
  assume "WaitClientSynced c = None \<and> GetNodeAccount am = Inr nodeAccount \<and>
    getPrelaunchMinipools rp sched (AccountAddress nodeAccount) = (minipools, None) \<and>
    minipools \<noteq> []"
  then show "stakePrelaunchMinipools c am rp sched w =
        (None, w\<lparr>events := events w @
           Logged (LogReady (length minipools)) # concat (map stub_lines minipools)\<rparr>)"
    using cycle_stub [of c am nodeAccount rp sched minipools w] by simp
qed

theorem stakeMinipool_stub_witness:
  "WaitClientSynced ready_context = None \<and>
   GetNodeAccount node_manager = Inr \<lparr>AccountAddress = 1\<rparr> \<and>
   getPrelaunchMinipools scenario_ledger [2, 0] 1 =
     ([\<lparr>Address = 10\<rparr>, \<lparr>Address = 12\<rparr>], None) \<and>
   stakePrelaunchMinipools ready_context node_manager scenario_ledger [2, 0] quiet_world =
     (None, \<lparr>events =
        [Logged (LogReady 2),
         Logged (LogStaking 10), Logged LogNotImplemented, Logged (LogStaked 10),
         Logged (LogStaking 12), Logged LogNotImplemented, Logged (LogStaked 12)]\<rparr>)"
proof -
  have a: "WaitClientSynced ready_context = None"
    by (simp add: ready_context_def)
  have b: "GetNodeAccount node_manager = Inr \<lparr>AccountAddress = 1\<rparr>"
    by (simp add: node_manager_def)
  have g: "getPrelaunchMinipools scenario_ledger [2, 0] 1 =
     ([\<lparr>Address = 10\<rparr>, \<lparr>Address = 12\<rparr>], None)"
    by code_simp
  from a b g
    stakeMinipool_stub [where c = ready_context and am = node_manager
      and nodeAccount = "\<lparr>AccountAddress = 1\<rparr>" and rp = scenario_ledger and sched = "[2, 0]"
      and minipools = "[\<lparr>Address = 10\<rparr>, \<lparr>Address = 12\<rparr>]" and w = quiet_world]
  have "stakePrelaunchMinipools ready_context node_manager scenario_ledger [2, 0] quiet_world =
     (None, quiet_world\<lparr>events := events quiet_world @
           Logged (LogReady (length [\<lparr>Address = 10\<rparr>, \<lparr>Address = (12 :: address)\<rparr>])) #
           concat (map stub_lines [\<lparr>Address = 10\<rparr>, \<lparr>Address = 12\<rparr>])\<rparr>)"
    by simp
  then have "stakePrelaunchMinipools ready_context node_manager scenario_ledger [2, 0] quiet_world =
     (None, \<lparr>events =
        [Logged (LogReady 2),
         Logged (LogStaking 10), Logged LogNotImplemented, Logged (LogStaked 10),
         Logged (LogStaking 12), Logged LogNotImplemented, Logged (LogStaked 12)]\<rparr>)"
    by (simp add: quiet_world_def stub_lines_def)
  with a b g show ?thesis by blast
qed

text \<open>
  C3 (isolation in the dispatch loop): the loop calls the action once for every minipool
  of the filtered list, in the order of the list, whichever of the calls fail; a call
  that fails adds the line "Could not stake minipool" with the address of that minipool
  and its error, and nothing else; the cycle returns \<^verbatim>\<open>nil\<close> whatever the calls
  returned. Failures are observed with the probe action; with \<^verbatim>\<open>stakeMinipool\<close>
  itself the loop prints the three lines of each minipool in turn.
\<close>

theorem dispatch_isolation:
  "attempts (stake_each (probe_action outcome) minipools w) = attempts w @ map Address minipools \<and>
   events (stake_each (probe_action outcome) minipools w) =
     events w @ concat (map (failure_lines outcome) minipools) \<and>
   (outcome mp = Some e \<longrightarrow>
      failure_lines outcome mp = [Logged (LogCouldNotStake (Address mp) e)]) \<and>
   events (stake_each (stakeMinipool am) minipools v) =
     events v @ concat (map stub_lines minipools) \<and>
   (WaitClientSynced c = None \<and> GetNodeAccount am = Inr nodeAccount \<and>
    getPrelaunchMinipools rp sched (AccountAddress nodeAccount) = (minipools, None) \<longrightarrow>
      fst (stakePrelaunchMinipools_with (probe_action outcome) c am rp sched w) = None \<and>
      attempts (snd (stakePrelaunchMinipools_with (probe_action outcome) c am rp sched w)) =
        attempts w @ map Address minipools)"
proof (intro conjI impI)
  show "attempts (stake_each (probe_action outcome) minipools w) = attempts w @ map Address minipools"
    by (rule stake_each_probe_attempts)
  show "events (stake_each (probe_action outcome) minipools w) =
     events w @ concat (map (failure_lines outcome) minipools)"
    by (rule stake_each_probe_events)
  show "failure_lines outcome mp = [Logged (LogCouldNotStake (Address mp) e)]"
    if "outcome mp = Some e"
    using that by (simp add: failure_lines_def)
  show "events (stake_each (stakeMinipool am) minipools v) =
     events v @ concat (map stub_lines minipools)"
    by (simp add: stake_each_stub)
next
  assume h: "WaitClientSynced c = None \<and> GetNodeAccount am = Inr nodeAccount \<and>
    getPrelaunchMinipools rp sched (AccountAddress nodeAccount) = (minipools, None)"
  then have d: "stakePrelaunchMinipools_with (probe_action outcome) c am rp sched w =
           (None, if minipools = [] then w
                  else stake_each (probe_action outcome) minipools
                         (log_Println (LogReady (length minipools)) w))"
    using cycle_dispatch [of c am nodeAccount rp sched minipools "probe_action outcome" w] by simp
  then show "fst (stakePrelaunchMinipools_with (probe_action outcome) c am rp sched w) = None"
    by simp
  from d show "attempts (snd (stakePrelaunchMinipools_with (probe_action outcome) c am rp sched w)) =
        attempts w @ map Address minipools"
    by (simp add: stake_each_probe_attempts log_Println_def)
qed

theorem dispatch_isolation_witness:
  "fails_at_10 \<lparr>Address = 10\<rparr> = Some ''out of gas'' \<and>
   WaitClientSynced ready_context = None \<and>
   GetNodeAccount node_manager = Inr \<lparr>AccountAddress = 1\<rparr> \<and>
   getPrelaunchMinipools scenario_ledger [2, 0] 1 =
     ([\<lparr>Address = 10\<rparr>, \<lparr>Address = 12\<rparr>], None) \<and>
   fst (stakePrelaunchMinipools_with (probe_action fails_at_10) ready_context node_manager
          scenario_ledger [2, 0] quiet_probe) = None \<and>
   attempts (snd (stakePrelaunchMinipools_with (probe_action fails_at_10) ready_context
          node_manager scenario_ledger [2, 0] quiet_probe)) = [10, 12] \<and>
   events (stake_each (probe_action fails_at_10) [\<lparr>Address = 10\<rparr>, \<lparr>Address = 12\<rparr>] quiet_probe) =
     [Logged (LogCouldNotStake 10 ''out of gas'')]"
proof -
  have o: "fails_at_10 \<lparr>Address = 10\<rparr> = Some ''out of gas''"
    by (simp add: fails_at_10_def)
  have a: "WaitClientSynced ready_context = None"
    by (simp add: ready_context_def)
  have b: "GetNodeAccount node_manager = Inr \<lparr>AccountAddress = 1\<rparr>"
    by (simp add: node_manager_def)
  have g: "getPrelaunchMinipools scenario_ledger [2, 0] 1 =
     ([\<lparr>Address = 10\<rparr>, \<lparr>Address = 12\<rparr>], None)"
    by code_simp
  note t = dispatch_isolation [where outcome = fails_at_10 and mp = "\<lparr>Address = 10\<rparr>"
      and e = "''out of gas''" and c = ready_context and am = node_manager
      and nodeAccount = "\<lparr>AccountAddress = 1\<rparr>" and rp = scenario_ledger and sched = "[2, 0]"
      and minipools = "[\<lparr>Address = 10\<rparr>, \<lparr>Address = 12\<rparr>]" and w = quiet_probe
      and v = quiet_world]
  from t a b g have r: "fst (stakePrelaunchMinipools_with (probe_action fails_at_10) ready_context
      node_manager scenario_ledger [2, 0] quiet_probe) = None"
    by simp
  from t a b g have at: "attempts (snd (stakePrelaunchMinipools_with (probe_action fails_at_10)
      ready_context node_manager scenario_ledger [2, 0] quiet_probe)) = [10, 12]"
    by (simp add: quiet_probe_def)
  from t o have ev: "events (stake_each (probe_action fails_at_10)
      [\<lparr>Address = 10\<rparr>, \<lparr>Address = 12\<rparr>] quiet_probe) = [Logged (LogCouldNotStake 10 ''out of gas'')]"
    by (simp add: quiet_probe_def failure_lines_def fails_at_10_def)
  from o a b g r at ev show ?thesis by blast
qed

text \<open>
  C6 (silence when nothing qualifies): when the filtered list is empty the cycle returns
  \<^verbatim>\<open>nil\<close> and leaves the world as it was (no line is printed, no action called), and
  the loop goes on to its sleep; a cycle prints the line
  "n minipools are ready for staking" only when the filtered list is non-empty, and
  then \<open>n\<close> is its length.
\<close>

theorem cycle_silent_when_empty:
  "(WaitClientSynced c = None \<and> GetNodeAccount am = Inr nodeAccount \<and>
    getPrelaunchMinipools rp sched (AccountAddress nodeAccount) = ([], None) \<longrightarrow>
      stakePrelaunchMinipools c am rp sched w = (None, w) \<and>
      loop_iteration \<lparr>ctx = c, manager = am, ledger = rp, completion = sched\<rparr> w =
        time_Sleep stakePrelaunchMinipoolsInterval w) \<and>
   (Logged (LogReady n) \<in>
      set (drop (length (events w)) (events (snd (stakePrelaunchMinipools c am rp sched w)))) \<longrightarrow>
      (\<exists>nodeAccount minipools.
         WaitClientSynced c = None \<and> GetNodeAccount am = Inr nodeAccount \<and>
         getPrelaunchMinipools rp sched (AccountAddress nodeAccount) = (minipools, None) \<and>
         minipools \<noteq> [] \<and> n = length minipools))"
proof (intro conjI impI)
  assume h: "WaitClientSynced c = None \<and> GetNodeAccount am = Inr nodeAccount \<and>
    getPrelaunchMinipools rp sched (AccountAddress nodeAccount) = ([], None)"
  then show s: "stakePrelaunchMinipools c am rp sched w = (None, w)"
    using cycle_stub [of c am nodeAccount rp sched "[]" w] by simp
  then show "loop_iteration \<lparr>ctx = c, manager = am, ledger = rp, completion = sched\<rparr> w =
        time_Sleep stakePrelaunchMinipoolsInterval w"
    by (simp add: loop_iteration_def)
next
  assume l: "Logged (LogReady n) \<in>
      set (drop (length (events w)) (events (snd (stakePrelaunchMinipools c am rp sched w))))"
  from cycle_real_cases [of c am rp sched w]
  show "\<exists>nodeAccount minipools.
         WaitClientSynced c = None \<and> GetNodeAccount am = Inr nodeAccount \<and>
         getPrelaunchMinipools rp sched (AccountAddress nodeAccount) = (minipools, None) \<and>
         minipools \<noteq> [] \<and> n = length minipools"
  proof (elim disjE exE conjE)
    fix nodeAccount minipools
    assume a: "WaitClientSynced c = None" "GetNodeAccount am = Inr nodeAccount"
      "getPrelaunchMinipools rp sched (AccountAddress nodeAccount) = (minipools, None)"
      and r: "stakePrelaunchMinipools c am rp sched w =
           (None, if minipools = [] then w
                  else w\<lparr>events := events w @
                         Logged (LogReady (length minipools)) # concat (map stub_lines minipools)\<rparr>)"
    from l r have ne: "minipools \<noteq> []" by (cases "minipools = []") simp_all
    with l r have "Logged (LogReady n) \<in>
        set (Logged (LogReady (length minipools)) # concat (map stub_lines minipools))"
      by simp
    with stub_lines_no_ready [of n minipools] have "n = length minipools"
      by (simp del: set_concat)
    with a ne show ?thesis by blast
  qed (use l in simp_all)
qed

theorem cycle_silent_when_empty_witness:
  "WaitClientSynced ready_context = None \<and>
   GetNodeAccount idle_manager = Inr \<lparr>AccountAddress = 2\<rparr> \<and>
   getPrelaunchMinipools scenario_ledger [2, 0] 2 = ([], None) \<and>
   stakePrelaunchMinipools ready_context idle_manager scenario_ledger [2, 0] quiet_world =
     (None, quiet_world) \<and>
   Logged (LogReady 2) \<in> set (drop (length (events quiet_world))
     (events (snd (stakePrelaunchMinipools ready_context node_manager scenario_ledger [2, 0]
        quiet_world)))) \<and>
   (\<exists>nodeAccount minipools.
      GetNodeAccount node_manager = Inr nodeAccount \<and>
      getPrelaunchMinipools scenario_ledger [2, 0] (AccountAddress nodeAccount) = (minipools, None) \<and>
      minipools \<noteq> [] \<and> 2 = length minipools)"
proof -
  have a: "WaitClientSynced ready_context = None"
    by (simp add: ready_context_def)
  have b: "GetNodeAccount idle_manager = Inr \<lparr>AccountAddress = 2\<rparr>"
    by (simp add: idle_manager_def)
  have g: "getPrelaunchMinipools scenario_ledger [2, 0] 2 = ([], None)"
    by code_simp
  from a b g
    cycle_silent_when_empty [where c = ready_context and am = idle_manager
      and nodeAccount = "\<lparr>AccountAddress = 2\<rparr>" and rp = scenario_ledger and sched = "[2, 0]"
      and w = quiet_world]
  have s: "stakePrelaunchMinipools ready_context idle_manager scenario_ledger [2, 0] quiet_world =
     (None, quiet_world)"
    by simp
  have l: "Logged (LogReady 2) \<in> set (drop (length (events quiet_world))
     (events (snd (stakePrelaunchMinipools ready_context node_manager scenario_ledger [2, 0]
        quiet_world))))"
    by code_simp
  from l cycle_silent_when_empty [where c = ready_context and am = node_manager
      and rp = scenario_ledger and sched = "[2, 0]" and w = quiet_world and n = 2]
  have e: "\<exists>nodeAccount minipools.
      GetNodeAccount node_manager = Inr nodeAccount \<and>
      getPrelaunchMinipools scenario_ledger [2, 0] (AccountAddress nodeAccount) = (minipools, None) \<and>
      minipools \<noteq> [] \<and> 2 = length minipools"
    by blast
  from a b g s l e show ?thesis by blast
qed

text \<open>
  C5 (the loop survives a failed cycle): when cycle \<open>t\<close> fails at the wait for the
  client, at the node account or in the aggregation, the loop prints that error, sleeps
  once for the configured interval and runs cycle \<open>t + 1\<close>, which ends with its own
  sleep. Whatever the cycles do, the first \<open>n\<close> iterations contain exactly \<open>n\<close>
  sleeps, and the loop never returns.
\<close>

theorem loop_liveness:
  "((WaitClientSynced (ctx (timeline t)) = Some e \<or>
     (WaitClientSynced (ctx (timeline t)) = None \<and>
      GetNodeAccount (manager (timeline t)) = Inl e) \<or>
     (\<exists>nodeAccount.
        WaitClientSynced (ctx (timeline t)) = None \<and>
        GetNodeAccount (manager (timeline t)) = Inr nodeAccount \<and>
        snd (getPrelaunchMinipools (ledger (timeline t)) (completion (timeline t))
               (AccountAddress nodeAccount)) = Some e)) \<longrightarrow>
    events (loop_run timeline (Suc t) w) =
      events (loop_run timeline t w) @
        [Logged (LogError e), Slept stakePrelaunchMinipoolsInterval] \<and>
    loop_run timeline (Suc (Suc t)) w =
      loop_iteration (timeline (Suc t)) (loop_run timeline (Suc t) w) \<and>
    (\<exists>ls. events (loop_run timeline (Suc (Suc t)) w) =
       events (loop_run timeline t w) @
         [Logged (LogError e), Slept stakePrelaunchMinipoolsInterval] @
         map Logged ls @ [Slept stakePrelaunchMinipoolsInterval])) \<and>
   length (filter (\<lambda>ev. ev = Slept stakePrelaunchMinipoolsInterval)
             (events (loop_run timeline n w))) =
     length (filter (\<lambda>ev. ev = Slept stakePrelaunchMinipoolsInterval) (events w)) + n \<and>
   stake_loop timeline t w = None"
proof (intro conjI impI)
  assume "WaitClientSynced (ctx (timeline t)) = Some e \<or>
     (WaitClientSynced (ctx (timeline t)) = None \<and>
      GetNodeAccount (manager (timeline t)) = Inl e) \<or>
     (\<exists>nodeAccount.
        WaitClientSynced (ctx (timeline t)) = None \<and>
        GetNodeAccount (manager (timeline t)) = Inr nodeAccount \<and>
        snd (getPrelaunchMinipools (ledger (timeline t)) (completion (timeline t))
               (AccountAddress nodeAccount)) = Some e)"
  then have "fst (stakePrelaunchMinipools (ctx (timeline t)) (manager (timeline t))
      (ledger (timeline t)) (completion (timeline t)) (loop_run timeline t w)) = Some e"
    by (simp only: cycle_fails_iff)
  from loop_iteration_failure [OF this]
  show one: "events (loop_run timeline (Suc t) w) =
      events (loop_run timeline t w) @
        [Logged (LogError e), Slept stakePrelaunchMinipoolsInterval]"
    by (simp add: time_Sleep_def log_Println_def)
  show "loop_run timeline (Suc (Suc t)) w =
      loop_iteration (timeline (Suc t)) (loop_run timeline (Suc t) w)"
    by simp
  from loop_iteration_events [of "timeline (Suc t)" "loop_run timeline (Suc t) w"]
  obtain ls where "events (loop_run timeline (Suc (Suc t)) w) =
      events (loop_run timeline (Suc t) w) @ map Logged ls @
        [Slept stakePrelaunchMinipoolsInterval]"
    by auto
  with one have "events (loop_run timeline (Suc (Suc t)) w) =
       events (loop_run timeline t w) @
         [Logged (LogError e), Slept stakePrelaunchMinipoolsInterval] @
         map Logged ls @ [Slept stakePrelaunchMinipoolsInterval]"
    by simp
  then show "\<exists>ls. events (loop_run timeline (Suc (Suc t)) w) =
       events (loop_run timeline t w) @
         [Logged (LogError e), Slept stakePrelaunchMinipoolsInterval] @
         map Logged ls @ [Slept stakePrelaunchMinipoolsInterval]"
    by blast
next
  show "length (filter (\<lambda>ev. ev = Slept stakePrelaunchMinipoolsInterval)
             (events (loop_run timeline n w))) =
     length (filter (\<lambda>ev. ev = Slept stakePrelaunchMinipoolsInterval) (events w)) + n"
    by (rule loop_run_sleeps)
  show "stake_loop timeline t w = None"
    by (rule stake_loop_None)
qed

theorem loop_liveness_witness:
  "WaitClientSynced (ctx (example_timeline 0)) = Some ''client not synced'' \<and>
   events (loop_run example_timeline 1 quiet_world) =
     [Logged (LogError ''client not synced''), Slept 60000000000] \<and>
   WaitClientSynced (ctx (example_timeline 1)) = None \<and>
   GetNodeAccount (manager (example_timeline 1)) = Inr \<lparr>AccountAddress = 1\<rparr> \<and>
   snd (getPrelaunchMinipools (ledger (example_timeline 1)) (completion (example_timeline 1)) 1) =
     Some ''network failure'' \<and>
   events (loop_run example_timeline 2 quiet_world) =
     [Logged (LogError ''client not synced''), Slept 60000000000,
      Logged (LogError ''network failure''), Slept 60000000000] \<and>
   stake_loop example_timeline 0 quiet_world = None"
proof -
  have a: "WaitClientSynced (ctx (example_timeline 0)) = Some ''client not synced''"
    by (simp add: example_timeline_def unsynced_context_def)
  have b: "WaitClientSynced (ctx (example_timeline 1)) = None"
    by (simp add: example_timeline_def ready_context_def)
  have c: "GetNodeAccount (manager (example_timeline 1)) = Inr \<lparr>AccountAddress = 1\<rparr>"
    by (simp add: example_timeline_def node_manager_def)
  have d: "snd (getPrelaunchMinipools (ledger (example_timeline 1))
      (completion (example_timeline 1)) 1) = Some ''network failure''"
    by code_simp
  have i: "stakePrelaunchMinipoolsInterval = 60000000000"
    by (simp add: stakePrelaunchMinipoolsInterval_def)
  from a loop_liveness [where timeline = example_timeline and t = 0
      and e = "''client not synced''" and w = quiet_world and n = 0]
  have r1: "events (loop_run example_timeline 1 quiet_world) =
     [Logged (LogError ''client not synced''), Slept 60000000000]"
    by (simp add: quiet_world_def i)
  from b c d loop_liveness [where timeline = example_timeline and t = 1
      and e = "''network failure''" and w = quiet_world and n = 0]
  have "events (loop_run example_timeline (Suc 1) quiet_world) =
      events (loop_run example_timeline 1 quiet_world) @
        [Logged (LogError ''network failure''), Slept stakePrelaunchMinipoolsInterval]"
    by simp
  with r1 have r2: "events (loop_run example_timeline 2 quiet_world) =
     [Logged (LogError ''client not synced''), Slept 60000000000,
      Logged (LogError ''network failure''), Slept 60000000000]"
    by (simp add: i numeral_2_eq_2)
  from loop_liveness [where timeline = example_timeline and t = 0
      and e = "''client not synced''" and w = quiet_world and n = 0]
  have r3: "stake_loop example_timeline 0 quiet_world = None"
    by blast
  from a r1 b c d r2 r3 show ?thesis by blast
qed

text \<open>
  C4, as the claim states it, fails: \<^verbatim>\<open>startStakePrelaunchMinipools\<close> returns the error
  of \<^verbatim>\<open>services.WaitNodeRegistered\<close> to its caller, starts no loop and logs nothing.
\<close>

theorem start_surfaces_service_error:
  "fst (startStakePrelaunchMinipools unregistered_context quiet_world) =
     Some ''node not registered'' \<and>
   fst (snd (startStakePrelaunchMinipools unregistered_context quiet_world)) = False \<and>
   events (snd (snd (startStakePrelaunchMinipools unregistered_context quiet_world))) = []"
  by (simp add: startStakePrelaunchMinipools_def unregistered_context_def ready_context_def
      quiet_world_def)

text \<open>
  C4, amended: \<^verbatim>\<open>startStakePrelaunchMinipools\<close> returns before any part of a cycle has
  run (the world is as it was). It starts the loop exactly when it returns \<^verbatim>\<open>nil\<close>,
  which is exactly when \<^verbatim>\<open>WaitNodeRegistered\<close>, \<^verbatim>\<open>GetAccountManager\<close> and
  \<^verbatim>\<open>GetRocketPool\<close> all succeed; an error it returns is the error of the first of
  these three that failed. Once the loop runs, an error returned by a cycle is printed
  by the loop, which then sleeps: it reaches no caller.
\<close>

theorem start_returns:
  "snd (snd (startStakePrelaunchMinipools c w)) = w \<and>
   fst (snd (startStakePrelaunchMinipools c w)) =
     (fst (startStakePrelaunchMinipools c w) = None) \<and>
   (fst (startStakePrelaunchMinipools c w) = None) =
     (WaitNodeRegistered c = None \<and> GetAccountManager c = None \<and> GetRocketPool c = None) \<and>
   (fst (startStakePrelaunchMinipools c w) = Some e \<longrightarrow>
      WaitNodeRegistered c = Some e \<or>
      (WaitNodeRegistered c = None \<and> GetAccountManager c = Some e) \<or>
      (WaitNodeRegistered c = None \<and> GetAccountManager c = None \<and> GetRocketPool c = Some e)) \<and>
   (fst (stakePrelaunchMinipools (ctx m) (manager m) (ledger m) (completion m) w') = Some e' \<longrightarrow>
      events (loop_iteration m w') =
        events w' @ [Logged (LogError e'), Slept stakePrelaunchMinipoolsInterval])"
proof (intro conjI impI)
  show "snd (snd (startStakePrelaunchMinipools c w)) = w"
    by (simp add: startStakePrelaunchMinipools_def split: option.splits)
  show "fst (snd (startStakePrelaunchMinipools c w)) =
     (fst (startStakePrelaunchMinipools c w) = None)"
    by (simp add: startStakePrelaunchMinipools_def split: option.splits)
  show "(fst (startStakePrelaunchMinipools c w) = None) =
     (WaitNodeRegistered c = None \<and> GetAccountManager c = None \<and> GetRocketPool c = None)"
    by (simp add: startStakePrelaunchMinipools_def split: option.splits)
  show "WaitNodeRegistered c = Some e \<or>
      (WaitNodeRegistered c = None \<and> GetAccountManager c = Some e) \<or>
      (WaitNodeRegistered c = None \<and> GetAccountManager c = None \<and> GetRocketPool c = Some e)"
    if "fst (startStakePrelaunchMinipools c w) = Some e"
    using that by (simp add: startStakePrelaunchMinipools_def split: option.splits)
  show "events (loop_iteration m w') =
        events w' @ [Logged (LogError e'), Slept stakePrelaunchMinipoolsInterval]"
    if "fst (stakePrelaunchMinipools (ctx m) (manager m) (ledger m) (completion m) w') = Some e'"
    using loop_iteration_failure [OF that] by (simp add: time_Sleep_def log_Println_def)
qed

theorem start_returns_witness:
  "startStakePrelaunchMinipools ready_context quiet_world = (None, True, quiet_world) \<and>
   fst (startStakePrelaunchMinipools unregistered_context quiet_world) =
     Some ''node not registered'' \<and>
   WaitNodeRegistered unregistered_context = Some ''node not registered'' \<and>
   fst (stakePrelaunchMinipools (ctx (example_timeline 0)) (manager (example_timeline 0))
     (ledger (example_timeline 0)) (completion (example_timeline 0)) quiet_world) =
     Some ''client not synced'' \<and>
   events (loop_iteration (example_timeline 0) quiet_world) =
     [Logged (LogError ''client not synced''), Slept 60000000000]"
proof -
  have r: "WaitNodeRegistered ready_context = None \<and> GetAccountManager ready_context = None \<and>
      GetRocketPool ready_context = None"
    by (simp add: ready_context_def)
  from r start_returns [where c = ready_context and w = quiet_world
      and e = "''node not registered''" and m = "example_timeline 0" and w' = quiet_world
      and e' = "''client not synced''"]
  have s1: "fst (startStakePrelaunchMinipools ready_context quiet_world) = None"
    and s2: "fst (snd (startStakePrelaunchMinipools ready_context quiet_world))"
    and s3: "snd (snd (startStakePrelaunchMinipools ready_context quiet_world)) = quiet_world"
    by simp_all
  from s1 s2 s3 have a: "startStakePrelaunchMinipools ready_context quiet_world =
      (None, True, quiet_world)"
    by (simp add: prod_eq_iff)
  have b: "fst (startStakePrelaunchMinipools unregistered_context quiet_world) =
     Some ''node not registered''"
    by (simp add: startStakePrelaunchMinipools_def unregistered_context_def)
  from b start_returns [where c = unregistered_context and w = quiet_world
      and e = "''node not registered''" and m = "example_timeline 0" and w' = quiet_world
      and e' = "''client not synced''"]
  have c: "WaitNodeRegistered unregistered_context = Some ''node not registered''"
    by (simp add: unregistered_context_def ready_context_def)
  have d: "fst (stakePrelaunchMinipools (ctx (example_timeline 0)) (manager (example_timeline 0))
     (ledger (example_timeline 0)) (completion (example_timeline 0)) quiet_world) =
     Some ''client not synced''"
    by (simp add: example_timeline_def unsynced_context_def stakePrelaunchMinipools_def
        stakePrelaunchMinipools_with_def)
  from d start_returns [where c = ready_context and w = quiet_world
      and e = "''node not registered''" and m = "example_timeline 0" and w' = quiet_world
      and e' = "''client not synced''"]
  have e: "events (loop_iteration (example_timeline 0) quiet_world) =
     [Logged (LogError ''client not synced''), Slept 60000000000]"
    by (simp add: quiet_world_def stakePrelaunchMinipoolsInterval_def)
  from a b c d e show ?thesis by blast
qed

end
